theory Spec2Isabelle
  imports Complex_Main
begin

section \<open>Errors and values\<close>

text \<open>
  The exceptions that can leave the core of \<^verbatim>\<open>interpreter.py\<close>: the two classes the
  file declares (\<^verbatim>\<open>LexicalError\<close>, \<^verbatim>\<open>ParsingError\<close>) and the built-in ones raised by the
  operations it calls (\<^verbatim>\<open>text[0]\<close>, \<^verbatim>\<open>int(result)\<close>, the arithmetic operators).
\<close>

datatype error =
    LexicalError
  | ParsingError
  | IndexError
  | ValueError
  | ZeroDivisionError
  | OverflowError
  | TypeError

text \<open>
  A Python \<^verbatim>\<open>float\<close> is a binary64 number: a sign with a magnitude (a finite
  non-negative rational, which covers both zeros), an infinity with a sign, or NaN.
  The Boolean is \<open>True\<close> for a negative sign.
\<close>

datatype pyfloat = Finite bool rat | Infinity bool | NaN

text \<open>
  The values a token or an evaluation can hold: an unbounded \<^verbatim>\<open>int\<close>, a \<^verbatim>\<open>float\<close>,
  a \<^verbatim>\<open>str\<close> (the lexeme stored in an operator token) and \<^verbatim>\<open>None\<close>.
\<close>

datatype pyvalue = PyInt int | PyFloat pyfloat | PyStr string | PyNone

section \<open>Characters\<close>

text \<open>
  A Python \<^verbatim>\<open>str\<close> is modelled as a \<^typ>\<open>string\<close>: a list of code points below 256
  (Latin-1). On that range \<^verbatim>\<open>str.isspace\<close> holds of U+0009..U+000D, U+001C..U+001F,
  U+0020, U+0085 and U+00A0, and \<^verbatim>\<open>str.isdigit\<close> holds of the ten ASCII digits and of
  the superscripts U+00B2, U+00B3 and U+00B9.
\<close>

definition isspace :: "char \<Rightarrow> bool" where
  "isspace c = (let n = (of_char c :: nat)
     in (9 \<le> n \<and> n \<le> 13) \<or> (28 \<le> n \<and> n \<le> 32) \<or> n = 133 \<or> n = 160)"

definition is_ascii_digit :: "char \<Rightarrow> bool" where
  "is_ascii_digit c = (let n = (of_char c :: nat) in 48 \<le> n \<and> n \<le> 57)"

definition isdigit :: "char \<Rightarrow> bool" where
  "isdigit c = (let n = (of_char c :: nat)
     in is_ascii_digit c \<or> n = 178 \<or> n = 179 \<or> n = 185)"

text \<open>
  \<^verbatim>\<open>int(result)\<close> for a string of \<^verbatim>\<open>isdigit\<close> characters, the only arguments
  \<^verbatim>\<open>Lexer.integer\<close> passes: the decimal value when every character is an ASCII digit,
  \<^verbatim>\<open>ValueError\<close> for the empty string and for a superscript digit. Integers are
  unbounded; the limit some interpreters put on the number of digits \<^verbatim>\<open>int\<close> converts
  is a setting of the interpreter and is left out.
\<close>

definition digit_value :: "char \<Rightarrow> int" where
  "digit_value c = int (of_char c) - 48"

definition py_int :: "string \<Rightarrow> error + int" where
  "py_int s = (if s \<noteq> [] \<and> list_all is_ascii_digit s
     then Inr (foldl (\<lambda>acc c. 10 * acc + digit_value c) 0 s)
     else Inl ValueError)"

section \<open>Tokens\<close>

datatype TokenType = INTEGER | PLUS | MINUS | MUL | DIV | LPAREN | RPAREN | EOF

record Token =
  token_type :: TokenType
  token_value :: pyvalue

definition mk_Token :: "TokenType \<Rightarrow> pyvalue \<Rightarrow> Token" where
  "mk_Token t v = \<lparr>token_type = t, token_value = v\<rparr>"

section \<open>Lexer\<close>

text \<open>The field \<^verbatim>\<open>text\<close> of the source is \<open>text_in\<close> here.\<close>

record Lexer =
  text_in :: string
  pos :: nat
  current_char :: "char option"

text \<open>\<^verbatim>\<open>Lexer.__init__\<close>: \<^verbatim>\<open>self.text[self.pos]\<close> raises \<^verbatim>\<open>IndexError\<close> on the empty string.\<close>

definition Lexer_init :: "string \<Rightarrow> error + Lexer" where
  "Lexer_init t = (if t = [] then Inl IndexError
     else Inr \<lparr>text_in = t, pos = 0, current_char = Some (t ! 0)\<rparr>)"

text \<open>\<^verbatim>\<open>Lexer.advance\<close>; the comparison is the source's, on Python integers.\<close>

definition advance :: "Lexer \<Rightarrow> Lexer" where
  "advance L = (let p = pos L + 1
     in if int p > int (length (text_in L)) - 1
        then L\<lparr>pos := p, current_char := None\<rparr>
        else L\<lparr>pos := p, current_char := Some (text_in L ! p)\<rparr>)"

text \<open>
  The loops of the lexer stop because every \<open>advance\<close> either moves the position
  towards the end of the text or sets the current character to \<^verbatim>\<open>None\<close>.
\<close>

definition chars_left :: "Lexer \<Rightarrow> nat" where
  "chars_left L = (case current_char L of None \<Rightarrow> 0 | Some c \<Rightarrow> Suc (length (text_in L) - pos L))"

lemma chars_left_advance:
  "current_char L = Some c \<Longrightarrow> chars_left (advance L) < chars_left L"
  by (auto simp: chars_left_def advance_def)

function skip_whitespace :: "Lexer \<Rightarrow> Lexer" where
  "skip_whitespace L =
     (case current_char L of
        None \<Rightarrow> L
      | Some c \<Rightarrow> if isspace c then skip_whitespace (advance L) else L)"
  by pat_completeness auto
termination
  by (relation "measure chars_left") (auto simp: chars_left_advance)

declare skip_whitespace.simps [simp del]

text \<open>\<^verbatim>\<open>Lexer.integer\<close>: the loop collects the digits, then \<^verbatim>\<open>int(result)\<close>.\<close>

function integer_loop :: "string \<Rightarrow> Lexer \<Rightarrow> string \<times> Lexer" where
  "integer_loop result L =
     (case current_char L of
        None \<Rightarrow> (result, L)
      | Some c \<Rightarrow> if isdigit c then integer_loop (result @ [c]) (advance L) else (result, L))"
  by pat_completeness auto
termination
  by (relation "measure (\<lambda>(result, L). chars_left L)") (auto simp: chars_left_advance)

declare integer_loop.simps [simp del]

definition integer :: "Lexer \<Rightarrow> error + (int \<times> Lexer)" where
  "integer L = (case integer_loop [] L of (result, L') \<Rightarrow>
     (case py_int result of Inl e \<Rightarrow> Inl e | Inr n \<Rightarrow> Inr (n, L')))"

lemma skip_whitespace_stops:
  "current_char (skip_whitespace L) = Some c \<Longrightarrow> \<not> isspace c"
proof (induction L rule: skip_whitespace.induct)
  case (1 L)
  show ?case
  proof (cases "current_char L")
    case None
    with "1.prems" show ?thesis by (simp add: skip_whitespace.simps [of L])
  next
    case (Some d)
    show ?thesis
    proof (cases "isspace d")
      case True
      with Some "1.prems" "1.IH" show ?thesis by (simp add: skip_whitespace.simps [of L])
    next
      case False
      with Some "1.prems" show ?thesis by (simp add: skip_whitespace.simps [of L])
    qed
  qed
qed

definition token_rank :: "Lexer \<Rightarrow> nat" where
  "token_rank L = (case current_char L of None \<Rightarrow> 0 | Some c \<Rightarrow> if isspace c then 2 else 1)"

lemma token_rank_skip:
  "current_char L = Some c \<Longrightarrow> isspace c \<Longrightarrow> token_rank (skip_whitespace L) < token_rank L"
  using skip_whitespace_stops [of L]
  by (cases "current_char (skip_whitespace L)") (auto simp: token_rank_def)

text \<open>
  \<^verbatim>\<open>Lexer.get_next_token\<close>. The \<^verbatim>\<open>continue\<close> after \<^verbatim>\<open>skip_whitespace\<close> is the
  recursive call; leaving the \<^verbatim>\<open>while\<close> loop is the \<open>None\<close> case.
\<close>

function get_next_token :: "Lexer \<Rightarrow> error + (Token \<times> Lexer)" where
  "get_next_token L =
     (case current_char L of
        None \<Rightarrow> Inr (mk_Token EOF PyNone, L)
      | Some c \<Rightarrow>
          if isspace c then get_next_token (skip_whitespace L)
          else if isdigit c then
            (case integer L of
               Inl e \<Rightarrow> Inl e
             | Inr (n, L') \<Rightarrow> Inr (mk_Token INTEGER (PyInt n), L'))
          else if c = CHR ''+'' then Inr (mk_Token PLUS (PyStr ''+''), advance L)
          else if c = CHR ''-'' then Inr (mk_Token MINUS (PyStr ''-''), advance L)
          else if c = CHR ''*'' then Inr (mk_Token MUL (PyStr ''*''), advance L)
          else if c = CHR ''/'' then Inr (mk_Token DIV (PyStr ''/''), advance L)
          else if c = CHR ''('' then Inr (mk_Token LPAREN (PyStr ''(''), advance L)
          else if c = CHR '')'' then Inr (mk_Token RPAREN (PyStr '')''), advance L)
          else Inl LexicalError)"
  by pat_completeness auto
termination
  by (relation "measure token_rank") (auto simp: token_rank_skip)

declare get_next_token.simps [simp del]

section \<open>Abstract syntax\<close>

text \<open>
  \<^verbatim>\<open>BinOp(left, op, right)\<close> and \<^verbatim>\<open>Num(token)\<close>. The field \<^verbatim>\<open>value\<close> of a \<^verbatim>\<open>Num\<close> is
  \<^verbatim>\<open>token.value\<close>, read from the token where \<^verbatim>\<open>visit_Num\<close> needs it.
\<close>

datatype AST = BinOp AST Token AST | Num Token

section \<open>Parser\<close>

record Parser =
  lexer :: Lexer
  current_token :: Token

definition Parser_init :: "Lexer \<Rightarrow> error + Parser" where
  "Parser_init L =
     (case get_next_token L of
        Inl e \<Rightarrow> Inl e
      | Inr (t, L') \<Rightarrow> Inr \<lparr>lexer = L', current_token = t\<rparr>)"

text \<open>\<^verbatim>\<open>Parser.eat\<close>; \<^verbatim>\<open>self.error()\<close> raises \<^verbatim>\<open>ParsingError\<close>.\<close>

definition eat :: "Parser \<Rightarrow> TokenType \<Rightarrow> error + Parser" where
  "eat P token_type' =
     (if token_type (current_token P) = token_type'
      then (case get_next_token (lexer P) of
              Inl e \<Rightarrow> Inl e
            | Inr (t, L') \<Rightarrow> Inr (P\<lparr>lexer := L', current_token := t\<rparr>))
      else Inl ParsingError)"

text \<open>
  \<^verbatim>\<open>Parser.factor\<close>, \<^verbatim>\<open>Parser.term\<close> and \<^verbatim>\<open>Parser.expr\<close>. Each takes the parser
  state and returns the node with the state it leaves. The two \<^verbatim>\<open>while\<close> loops are
  \<open>term_loop\<close> and \<open>expr_loop\<close>, which carry the variable \<^verbatim>\<open>node\<close>.
  \<^verbatim>\<open>Parser.term\<close> is \<open>Parser_term\<close> here. The recursion depth is unbounded; the
  recursion limit of the interpreter, which turns a deep nesting of parentheses into a
  \<^verbatim>\<open>RecursionError\<close>, is a setting of the interpreter and is left out.
\<close>

function factor :: "Parser \<Rightarrow> error + (AST \<times> Parser)"
  and term_loop :: "AST \<Rightarrow> Parser \<Rightarrow> error + (AST \<times> Parser)"
  and Parser_term :: "Parser \<Rightarrow> error + (AST \<times> Parser)"
  and expr_loop :: "AST \<Rightarrow> Parser \<Rightarrow> error + (AST \<times> Parser)"
  and expr :: "Parser \<Rightarrow> error + (AST \<times> Parser)"
where
  "factor P =
     (let token = current_token P
      in if token_type token = INTEGER then
           (case eat P INTEGER of
              Inl e \<Rightarrow> Inl e
            | Inr P1 \<Rightarrow> Inr (Num token, P1))
         else if token_type token = LPAREN then
           (case eat P LPAREN of
              Inl e \<Rightarrow> Inl e
            | Inr P1 \<Rightarrow>
                (case expr P1 of
                   Inl e \<Rightarrow> Inl e
                 | Inr (node, P2) \<Rightarrow>
                     (case eat P2 RPAREN of
                        Inl e \<Rightarrow> Inl e
                      | Inr P3 \<Rightarrow> Inr (node, P3))))
         else Inl ParsingError)"
| "term_loop node P =
     (if token_type (current_token P) \<in> {MUL, DIV} then
        (let token = current_token P
         in case (if token_type token = MUL then eat P MUL
                  else if token_type token = DIV then eat P DIV
                  else Inr P) of
              Inl e \<Rightarrow> Inl e
            | Inr P1 \<Rightarrow>
                (case factor P1 of
                   Inl e \<Rightarrow> Inl e
                 | Inr (right, P2) \<Rightarrow> term_loop (BinOp node token right) P2))
      else Inr (node, P))"
| "Parser_term P =
     (case factor P of
        Inl e \<Rightarrow> Inl e
      | Inr (node, P1) \<Rightarrow> term_loop node P1)"
| "expr_loop node P =
     (if token_type (current_token P) \<in> {PLUS, MINUS} then
        (let token = current_token P
         in case (if token_type token = PLUS then eat P PLUS
                  else if token_type token = MINUS then eat P MINUS
                  else Inr P) of
              Inl e \<Rightarrow> Inl e
            | Inr P1 \<Rightarrow>
                (case Parser_term P1 of
                   Inl e \<Rightarrow> Inl e
                 | Inr (right, P2) \<Rightarrow> expr_loop (BinOp node token right) P2))
      else Inr (node, P))"
| "expr P =
     (case Parser_term P of
        Inl e \<Rightarrow> Inl e
      | Inr (node, P1) \<Rightarrow> expr_loop node P1)"
  by pat_completeness auto

subsection \<open>Termination of the parser\<close>

text \<open>
  A call of \<open>get_next_token\<close> never moves the lexer backwards, and a call that returns
  a token other than \<open>EOF\<close> moves it forwards.
\<close>

lemma chars_left_skip_whitespace: "chars_left (skip_whitespace L) \<le> chars_left L"
proof (induction L rule: skip_whitespace.induct)
  case (1 L)
  show ?case
  proof (cases "current_char L")
    case None
    then show ?thesis by (simp add: skip_whitespace.simps [of L])
  next
    case (Some c)
    show ?thesis
    proof (cases "isspace c")
      case True
      with Some "1.IH" chars_left_advance [OF Some] show ?thesis
        by (simp add: skip_whitespace.simps [of L])
    next
      case False
      with Some show ?thesis by (simp add: skip_whitespace.simps [of L])
    qed
  qed
qed

lemma chars_left_integer_loop: "chars_left (snd (integer_loop r L)) \<le> chars_left L"
proof (induction r L rule: integer_loop.induct)
  case (1 r L)
  show ?case
  proof (cases "current_char L")
    case None
    then show ?thesis by (simp add: integer_loop.simps [of r L])
  next
    case (Some c)
    show ?thesis
    proof (cases "isdigit c")
      case True
      with Some "1.IH" chars_left_advance [OF Some] show ?thesis
        by (simp add: integer_loop.simps [of r L])
    next
      case False
      with Some show ?thesis by (simp add: integer_loop.simps [of r L])
    qed
  qed
qed

lemma chars_left_integer_loop_digit:
  assumes "current_char L = Some c" "isdigit c"
  shows "chars_left (snd (integer_loop r L)) < chars_left L"
proof -
  have "integer_loop r L = integer_loop (r @ [c]) (advance L)"
    using assms by (simp add: integer_loop.simps [of r L])
  with chars_left_integer_loop [of "r @ [c]" "advance L"] chars_left_advance [OF assms(1)]
  show ?thesis by simp
qed

lemma chars_left_integer:
  assumes "integer L = Inr (n, L')" "current_char L = Some c" "isdigit c"
  shows "chars_left L' < chars_left L"
  using assms chars_left_integer_loop_digit [OF assms(2,3), of "[]"]
  by (auto simp: integer_def split: prod.splits sum.splits)

lemma get_next_token_chars_left:
  "get_next_token L = Inr (t, L') \<Longrightarrow>
     chars_left L' \<le> chars_left L \<and> (token_type t \<noteq> EOF \<longrightarrow> chars_left L' < chars_left L)"
proof (induction L rule: get_next_token.induct)
  case (1 L)
  show ?case
  proof (cases "current_char L")
    case None
    with "1.prems" show ?thesis
      by (auto simp: get_next_token.simps [of L] mk_Token_def)
  next
    case (Some c)
    show ?thesis
    proof (cases "isspace c")
      case True
      with Some "1.prems" have "get_next_token (skip_whitespace L) = Inr (t, L')"
        by (simp add: get_next_token.simps [of L])
      from "1.IH" [OF Some True this] chars_left_skip_whitespace [of L]
      show ?thesis by auto
    next
      case False
      show ?thesis
      proof (cases "isdigit c")
        case True
        with False Some "1.prems" obtain n where "integer L = Inr (n, L')"
          by (auto simp: get_next_token.simps [of L] split: sum.splits)
        from chars_left_integer [OF this Some True] show ?thesis by simp
      next
        case nd: False
        with False Some "1.prems" have "L' = advance L"
          by (auto simp: get_next_token.simps [of L] split: if_splits)
        with chars_left_advance [OF Some] show ?thesis by simp
      qed
    qed
  qed
qed

text \<open>
  What is left for the parser: the characters the lexer has not read, counted twice,
  and the lookahead token when it is not \<open>EOF\<close>. Every successful \<open>eat\<close> of a token
  type other than \<open>EOF\<close> makes it smaller.
\<close>

definition tokens_left :: "Parser \<Rightarrow> nat" where
  "tokens_left P = 2 * chars_left (lexer P) + (if token_type (current_token P) = EOF then 0 else 1)"

lemma eat_tokens_left:
  "eat P tt = Inr P' \<Longrightarrow> tt \<noteq> EOF \<Longrightarrow> tokens_left P' < tokens_left P"
  by (auto simp: eat_def tokens_left_def split: if_splits sum.splits dest!: get_next_token_chars_left)


text \<open>
  The nested calls (\<open>eat P2 RPAREN\<close> after \<open>expr P1\<close>, the loops after \<open>factor\<close> and
  \<open>term\<close>) run on the state a recursive call returns, so termination needs the fact
  that a production returns a smaller state, proved first on the domain of the recursion.
\<close>

lemma parser_progress_partial:
  "factor_term_loop_Parser_term_expr_loop_expr_dom (Inl (Inl P)) \<Longrightarrow>
     (\<forall>n P'. factor P = Inr (n, P') \<longrightarrow> tokens_left P' < tokens_left P)"
  "factor_term_loop_Parser_term_expr_loop_expr_dom (Inl (Inr (node, P))) \<Longrightarrow>
     (\<forall>n P'. term_loop node P = Inr (n, P') \<longrightarrow> tokens_left P' \<le> tokens_left P)"
  "factor_term_loop_Parser_term_expr_loop_expr_dom (Inr (Inl P)) \<Longrightarrow>
     (\<forall>n P'. Parser_term P = Inr (n, P') \<longrightarrow> tokens_left P' < tokens_left P)"
  "factor_term_loop_Parser_term_expr_loop_expr_dom (Inr (Inr (Inl (node, P)))) \<Longrightarrow>
     (\<forall>n P'. expr_loop node P = Inr (n, P') \<longrightarrow> tokens_left P' \<le> tokens_left P)"
  "factor_term_loop_Parser_term_expr_loop_expr_dom (Inr (Inr (Inr P))) \<Longrightarrow>
     (\<forall>n P'. expr P = Inr (n, P') \<longrightarrow> tokens_left P' < tokens_left P)"
proof (induction rule: factor_term_loop_Parser_term_expr_loop_expr.pinduct)
  case (1 P)
  show ?case
  proof (intro allI impI)
    fix n P' assume r: "factor P = Inr (n, P')"
    show "tokens_left P' < tokens_left P"
    proof (cases "token_type (current_token P) = INTEGER")
      case True
      with r "1.hyps" have "eat P INTEGER = Inr P'"
        by (auto simp: factor.psimps Let_def split: sum.splits)
      then show ?thesis by (rule eat_tokens_left) simp
    next
      case False
      with r "1.hyps" obtain P1 P2 where
        lp: "token_type (current_token P) = LPAREN" and
        e1: "eat P LPAREN = Inr P1" and e2: "expr P1 = Inr (n, P2)" and e3: "eat P2 RPAREN = Inr P'"
        by (auto simp: factor.psimps Let_def split: sum.splits if_splits)
      from "1.IH" [OF refl False lp e1] e2 have "tokens_left P2 < tokens_left P1" by blast
      moreover from e1 have "tokens_left P1 < tokens_left P" by (rule eat_tokens_left) simp
      moreover from e3 have "tokens_left P' < tokens_left P2" by (rule eat_tokens_left) simp
      ultimately show ?thesis by simp
    qed
  qed
next
  case (2 node P)
  show ?case
  proof (intro allI impI)
    fix n P' assume r: "term_loop node P = Inr (n, P')"
    show "tokens_left P' \<le> tokens_left P"
    proof (cases "token_type (current_token P) \<in> {MUL, DIV}")
      case False
      with r "2.hyps" show ?thesis by (simp add: term_loop.psimps)
    next
      case True
      let ?e = "if token_type (current_token P) = MUL then eat P MUL
                else if token_type (current_token P) = DIV then eat P DIV else Inr P"
      from True r "2.hyps" obtain P1 right P2 where
        e1: "?e = Inr P1" and e2: "factor P1 = Inr (right, P2)" and
        e3: "term_loop (BinOp node (current_token P) right) P2 = Inr (n, P')"
        by (auto simp: term_loop.psimps Let_def split: sum.splits)
      from e1 True have "tokens_left P1 < tokens_left P"
        by (auto split: if_splits dest: eat_tokens_left)
      moreover from "2.IH"(1) [OF True refl e1] e2 have "tokens_left P2 < tokens_left P1" by blast
      moreover from "2.IH"(2) [OF True refl e1 e2 refl] e3 have "tokens_left P' \<le> tokens_left P2"
        by blast
      ultimately show ?thesis by simp
    qed
  qed
next
  case (3 P)
  show ?case
  proof (intro allI impI)
    fix n P' assume r: "Parser_term P = Inr (n, P')"
    with "3.hyps" obtain node P1 where
      e1: "factor P = Inr (node, P1)" and e2: "term_loop node P1 = Inr (n, P')"
      by (auto simp: Parser_term.psimps split: sum.splits)
    from "3.IH"(1) e1 have "tokens_left P1 < tokens_left P" by blast
    moreover from "3.IH"(2) [OF e1 refl] e2 have "tokens_left P' \<le> tokens_left P1" by blast
    ultimately show "tokens_left P' < tokens_left P" by simp
  qed
next
  case (4 node P)
  show ?case
  proof (intro allI impI)
    fix n P' assume r: "expr_loop node P = Inr (n, P')"
    show "tokens_left P' \<le> tokens_left P"
    proof (cases "token_type (current_token P) \<in> {PLUS, MINUS}")
      case False
      with r "4.hyps" show ?thesis by (simp add: expr_loop.psimps)
    next
      case True
      let ?e = "if token_type (current_token P) = PLUS then eat P PLUS
                else if token_type (current_token P) = MINUS then eat P MINUS else Inr P"
      from True r "4.hyps" obtain P1 right P2 where
        e1: "?e = Inr P1" and e2: "Parser_term P1 = Inr (right, P2)" and
        e3: "expr_loop (BinOp node (current_token P) right) P2 = Inr (n, P')"
        by (auto simp: expr_loop.psimps Let_def split: sum.splits)
      from e1 True have "tokens_left P1 < tokens_left P"
        by (auto split: if_splits dest: eat_tokens_left)
      moreover from "4.IH"(1) [OF True refl e1] e2 have "tokens_left P2 < tokens_left P1" by blast
      moreover from "4.IH"(2) [OF True refl e1 e2 refl] e3 have "tokens_left P' \<le> tokens_left P2"
        by blast
      ultimately show ?thesis by simp
    qed
  qed
next
  case (5 P)
  show ?case
  proof (intro allI impI)
    fix n P' assume r: "expr P = Inr (n, P')"
    with "5.hyps" obtain node P1 where
      e1: "Parser_term P = Inr (node, P1)" and e2: "expr_loop node P1 = Inr (n, P')"
      by (auto simp: expr.psimps split: sum.splits)
    from "5.IH"(1) e1 have "tokens_left P1 < tokens_left P" by blast
    moreover from "5.IH"(2) [OF e1 refl] e2 have "tokens_left P' \<le> tokens_left P1" by blast
    ultimately show "tokens_left P' < tokens_left P" by simp
  qed
qed

definition call_size :: "(Parser + AST \<times> Parser) + Parser + AST \<times> Parser + Parser \<Rightarrow> nat" where
  "call_size x =
     (case x of
        Inl (Inl P) \<Rightarrow> 3 * tokens_left P
      | Inl (Inr (node, P)) \<Rightarrow> 3 * tokens_left P
      | Inr (Inl P) \<Rightarrow> 3 * tokens_left P + 1
      | Inr (Inr (Inl (node, P))) \<Rightarrow> 3 * tokens_left P
      | Inr (Inr (Inr P)) \<Rightarrow> 3 * tokens_left P + 2)"

termination factor
proof (relation "measure call_size")
  show "wf (measure call_size)" by simp
qed (auto simp: call_size_def split: if_splits dest!: parser_progress_partial eat_tokens_left)


declare factor.simps [simp del] term_loop.simps [simp del] Parser_term.simps [simp del]
  expr_loop.simps [simp del] expr.simps [simp del]

section \<open>Arithmetic of Python numbers\<close>

text \<open>
  Rounding a positive rational to binary64, to nearest with ties to even: 53 significant
  bits, with the exponent not below that of the subnormals. \<open>exponent q\<close> is the
  integer \<open>e\<close> with \<open>2 ^ e \<le> q < 2 ^ (e + 1)\<close>. A rounded value of \<open>2 ^ 1024\<close> or more
  is an overflow.
\<close>

fun bit_length :: "nat \<Rightarrow> nat" where
  "bit_length n = (if n = 0 then 0 else Suc (bit_length (n div 2)))"

declare bit_length.simps [simp del]

definition pow2 :: "int \<Rightarrow> rat" where
  "pow2 k = (if 0 \<le> k then 2 ^ nat k else 1 / 2 ^ nat (- k))"

definition exponent :: "rat \<Rightarrow> int" where
  "exponent q = (if 1 \<le> q then int (bit_length (nat \<lfloor>q\<rfloor>)) - 1
     else - int (bit_length (nat (\<lceil>1 / q\<rceil> - 1))))"

definition round_half_even :: "rat \<Rightarrow> int" where
  "round_half_even x = (let f = \<lfloor>x\<rfloor>; r = x - of_int f
     in if r < 1 / 2 then f else if 1 / 2 < r then f + 1 else if even f then f else f + 1)"

definition binary64_round :: "rat \<Rightarrow> rat" where
  "binary64_round q = (let ulp = pow2 (max (exponent q) (- 1022) - 52)
     in of_int (round_half_even (q / ulp)) * ulp)"

definition fl_round :: "bool \<Rightarrow> rat \<Rightarrow> pyfloat" where
  "fl_round sg q = (if q = 0 then Finite sg 0
     else let r = binary64_round q in if pow2 1024 \<le> r then Infinity sg else Finite sg r)"

definition fl_signed :: "bool \<Rightarrow> rat \<Rightarrow> rat" where
  "fl_signed sg m = (if sg then - m else m)"

fun fl_neg :: "pyfloat \<Rightarrow> pyfloat" where
  "fl_neg (Finite sg m) = Finite (\<not> sg) m"
| "fl_neg (Infinity sg) = Infinity (\<not> sg)"
| "fl_neg NaN = NaN"

fun fl_add :: "pyfloat \<Rightarrow> pyfloat \<Rightarrow> pyfloat" where
  "fl_add (Finite s1 m1) (Finite s2 m2) =
     (let x = fl_signed s1 m1 + fl_signed s2 m2
      in if x = 0 then Finite (s1 \<and> s2) 0 else fl_round (x < 0) \<bar>x\<bar>)"
| "fl_add (Finite s1 m1) (Infinity s2) = Infinity s2"
| "fl_add (Infinity s1) (Finite s2 m2) = Infinity s1"
| "fl_add (Infinity s1) (Infinity s2) = (if s1 = s2 then Infinity s1 else NaN)"
| "fl_add NaN y = NaN"
| "fl_add x NaN = NaN"

definition fl_sub :: "pyfloat \<Rightarrow> pyfloat \<Rightarrow> pyfloat" where
  "fl_sub x y = fl_add x (fl_neg y)"

fun fl_mul :: "pyfloat \<Rightarrow> pyfloat \<Rightarrow> pyfloat" where
  "fl_mul (Finite s1 m1) (Finite s2 m2) = fl_round (s1 \<noteq> s2) (m1 * m2)"
| "fl_mul (Finite s1 m1) (Infinity s2) = (if m1 = 0 then NaN else Infinity (s1 \<noteq> s2))"
| "fl_mul (Infinity s1) (Finite s2 m2) = (if m2 = 0 then NaN else Infinity (s1 \<noteq> s2))"
| "fl_mul (Infinity s1) (Infinity s2) = Infinity (s1 \<noteq> s2)"
| "fl_mul NaN y = NaN"
| "fl_mul x NaN = NaN"

text \<open>Division by a divisor that is not a zero; Python tests for the zero beforehand.\<close>

fun fl_div :: "pyfloat \<Rightarrow> pyfloat \<Rightarrow> pyfloat" where
  "fl_div (Finite s1 m1) (Finite s2 m2) = fl_round (s1 \<noteq> s2) (m1 / m2)"
| "fl_div (Finite s1 m1) (Infinity s2) = Finite (s1 \<noteq> s2) 0"
| "fl_div (Infinity s1) (Finite s2 m2) = Infinity (s1 \<noteq> s2)"
| "fl_div (Infinity s1) (Infinity s2) = NaN"
| "fl_div NaN y = NaN"
| "fl_div x NaN = NaN"

text \<open>
  \<^verbatim>\<open>float(i)\<close> as the mixed operations apply it to an \<^verbatim>\<open>int\<close> operand: correctly
  rounded, \<^verbatim>\<open>OverflowError\<close> when the integer is too large.
\<close>

definition float_of_int :: "int \<Rightarrow> error + pyfloat" where
  "float_of_int i = (if i = 0 then Inr (Finite False 0)
     else let r = binary64_round (of_int \<bar>i\<bar>)
          in if pow2 1024 \<le> r then Inl OverflowError else Inr (Finite (i < 0) r))"

fun is_number :: "pyvalue \<Rightarrow> bool" where
  "is_number (PyInt i) = True"
| "is_number (PyFloat x) = True"
| "is_number v = False"

fun as_float :: "pyvalue \<Rightarrow> error + pyfloat" where
  "as_float (PyInt i) = float_of_int i"
| "as_float (PyFloat x) = Inr x"
| "as_float v = Inl TypeError"

text \<open>
  An operator on two numbers of which at least one is a \<^verbatim>\<open>float\<close>: both operands are
  converted, the left one first; any other pair of operands is a \<^verbatim>\<open>TypeError\<close>.
\<close>

definition float_op :: "(pyfloat \<Rightarrow> pyfloat \<Rightarrow> error + pyfloat) \<Rightarrow> pyvalue \<Rightarrow> pyvalue \<Rightarrow> error + pyvalue" where
  "float_op f a b =
     (if is_number a \<and> is_number b then
        (case as_float a of
           Inl e \<Rightarrow> Inl e
         | Inr x \<Rightarrow>
             (case as_float b of
                Inl e \<Rightarrow> Inl e
              | Inr y \<Rightarrow> (case f x y of Inl e \<Rightarrow> Inl e | Inr z \<Rightarrow> Inr (PyFloat z))))
      else Inl TypeError)"

text \<open>
  The four operators of \<^verbatim>\<open>visit_BinOp\<close> on the values of this model. \<^verbatim>\<open>+\<close> also
  concatenates two strings and \<^verbatim>\<open>*\<close> repeats a string; \<^verbatim>\<open>/\<close> on two integers is
  the correctly rounded quotient.
\<close>

fun py_add :: "pyvalue \<Rightarrow> pyvalue \<Rightarrow> error + pyvalue" where
  "py_add (PyInt x) (PyInt y) = Inr (PyInt (x + y))"
| "py_add (PyStr s) (PyStr t) = Inr (PyStr (s @ t))"
| "py_add a b = float_op (\<lambda>x y. Inr (fl_add x y)) a b"

fun py_sub :: "pyvalue \<Rightarrow> pyvalue \<Rightarrow> error + pyvalue" where
  "py_sub (PyInt x) (PyInt y) = Inr (PyInt (x - y))"
| "py_sub a b = float_op (\<lambda>x y. Inr (fl_sub x y)) a b"

fun py_mul :: "pyvalue \<Rightarrow> pyvalue \<Rightarrow> error + pyvalue" where
  "py_mul (PyInt x) (PyInt y) = Inr (PyInt (x * y))"
| "py_mul (PyStr s) (PyInt n) = Inr (PyStr (concat (replicate (nat n) s)))"
| "py_mul (PyInt n) (PyStr s) = Inr (PyStr (concat (replicate (nat n) s)))"
| "py_mul a b = float_op (\<lambda>x y. Inr (fl_mul x y)) a b"

definition fl_truediv :: "pyfloat \<Rightarrow> pyfloat \<Rightarrow> error + pyfloat" where
  "fl_truediv x y = (case y of Finite s m \<Rightarrow> if m = 0 then Inl ZeroDivisionError else Inr (fl_div x y)
     | _ \<Rightarrow> Inr (fl_div x y))"

fun py_truediv :: "pyvalue \<Rightarrow> pyvalue \<Rightarrow> error + pyvalue" where
  "py_truediv (PyInt x) (PyInt y) =
     (if y = 0 then Inl ZeroDivisionError
      else if x = 0 then Inr (PyFloat (Finite (y < 0) 0))
      else let r = binary64_round (of_int \<bar>x\<bar> / of_int \<bar>y\<bar>)
           in if pow2 1024 \<le> r then Inl OverflowError
              else Inr (PyFloat (Finite ((x < 0) \<noteq> (y < 0)) r)))"
| "py_truediv a b = float_op fl_truediv a b"

section \<open>Interpreter\<close>

text \<open>
  \<^verbatim>\<open>Interpreter.visit\<close> dispatches on the class of the node to \<^verbatim>\<open>visit_Num\<close> and
  \<^verbatim>\<open>visit_BinOp\<close>; the left operand is evaluated before the right one. A \<^verbatim>\<open>BinOp\<close>
  whose operator is none of the four falls off the end of \<^verbatim>\<open>visit_BinOp\<close>, which
  returns \<^verbatim>\<open>None\<close>.
\<close>

definition visit_operands :: "(pyvalue \<Rightarrow> pyvalue \<Rightarrow> error + pyvalue) \<Rightarrow> error + pyvalue \<Rightarrow> error + pyvalue \<Rightarrow> error + pyvalue" where
  "visit_operands f l r =
     (case l of
        Inl e \<Rightarrow> Inl e
      | Inr a \<Rightarrow> (case r of Inl e \<Rightarrow> Inl e | Inr b \<Rightarrow> f a b))"

fun visit :: "AST \<Rightarrow> error + pyvalue" where
  "visit (Num token) = Inr (token_value token)"
| "visit (BinOp left opr right) =
     (if token_type opr = PLUS then visit_operands py_add (visit left) (visit right)
      else if token_type opr = MINUS then visit_operands py_sub (visit left) (visit right)
      else if token_type opr = MUL then visit_operands py_mul (visit left) (visit right)
      else if token_type opr = DIV then visit_operands py_truediv (visit left) (visit right)
      else Inr PyNone)"

text \<open>\<^verbatim>\<open>Interpreter.interpret\<close>: \<^verbatim>\<open>self.parser.expr()\<close>, then \<^verbatim>\<open>self.visit(tree)\<close>.\<close>

definition Interpreter_interpret :: "Parser \<Rightarrow> error + pyvalue" where
  "Interpreter_interpret P = (case expr P of Inl e \<Rightarrow> Inl e | Inr (tree, P') \<Rightarrow> visit tree)"

text \<open>
  The body of the \<^verbatim>\<open>try\<close> block of \<^verbatim>\<open>main\<close> for a line that is not \<^verbatim>\<open>exit\<close>:
  \<^verbatim>\<open>Interpreter(Parser(Lexer(text))).interpret()\<close>, and the same up to the tree.
\<close>

definition parse_text :: "string \<Rightarrow> error + (AST \<times> Parser)" where
  "parse_text t =
     (case Lexer_init t of
        Inl e \<Rightarrow> Inl e
      | Inr L \<Rightarrow> (case Parser_init L of Inl e \<Rightarrow> Inl e | Inr P \<Rightarrow> expr P))"

definition interpret_text :: "string \<Rightarrow> error + pyvalue" where
  "interpret_text t =
     (case Lexer_init t of
        Inl e \<Rightarrow> Inl e
      | Inr L \<Rightarrow> (case Parser_init L of Inl e \<Rightarrow> Inl e | Inr P \<Rightarrow> Interpreter_interpret P))"

section \<open>Calls and states for the examples\<close>

text \<open>
  For the examples: the lexer on text \<open>t\<close> at position \<open>p\<close>, and the parser with that
  lexer and the lookahead token \<open>tok\<close>.
\<close>

definition lexer_at :: "string \<Rightarrow> nat \<Rightarrow> Lexer" where
  "lexer_at t p = \<lparr>text_in = t, pos = p, current_char = (if p < length t then Some (t ! p) else None)\<rparr>"

definition parser_at :: "string \<Rightarrow> nat \<Rightarrow> Token \<Rightarrow> Parser" where
  "parser_at t p tok = \<lparr>lexer = lexer_at t p, current_token = tok\<rparr>"

text \<open>
  \<open>get_next_tokens n\<close> is \<open>n\<close> successive calls of \<^verbatim>\<open>get_next_token\<close> on one lexer,
  with the tokens they return; the first exception ends it.
\<close>

fun get_next_tokens :: "nat \<Rightarrow> Lexer \<Rightarrow> error + (Token list \<times> Lexer)" where
  "get_next_tokens 0 L = Inr ([], L)"
| "get_next_tokens (Suc n) L =
     (case get_next_token L of
        Inl e \<Rightarrow> Inl e
      | Inr (t, L1) \<Rightarrow>
          (case get_next_tokens n L1 of
             Inl e \<Rightarrow> Inl e
           | Inr (ts, L2) \<Rightarrow> Inr (t # ts, L2)))"

section \<open>Properties of the lexer\<close>

text \<open>
  The string \<^verbatim>\<open>integer\<close> hands to \<^verbatim>\<open>int\<close> holds \<^verbatim>\<open>isdigit\<close> characters only, so
  \<open>py_int\<close> is applied where it is defined to agree with \<^verbatim>\<open>int\<close>.
\<close>

lemma integer_loop_digits:
  "list_all isdigit r \<Longrightarrow> list_all isdigit (fst (integer_loop r L))"
proof (induction r L rule: integer_loop.induct)
  case (1 r L)
  show ?case
  proof (cases "current_char L")
    case None
    with "1.prems" show ?thesis by (simp add: integer_loop.simps [of r L])
  next
    case (Some c)
    show ?thesis
    proof (cases "isdigit c")
      case True
      with Some "1.prems" "1.IH" show ?thesis by (simp add: integer_loop.simps [of r L])
    next
      case False
      with Some "1.prems" show ?thesis by (simp add: integer_loop.simps [of r L])
    qed
  qed
qed

lemma get_next_token_exhausted:
  "current_char L = None \<Longrightarrow> get_next_token L = Inr (mk_Token EOF PyNone, L)"
  by (simp add: get_next_token.simps [of L])

lemma skip_whitespace_id:
  "current_char L = None \<or> (\<exists>c. current_char L = Some c \<and> \<not> isspace c) \<Longrightarrow> skip_whitespace L = L"
  by (auto simp: skip_whitespace.simps [of L])

lemma get_next_token_skip:
  "get_next_token (skip_whitespace L) = get_next_token L"
proof (cases "current_char L")
  case None
  then show ?thesis by (simp add: skip_whitespace_id)
next
  case (Some c)
  then show ?thesis
    by (cases "isspace c") (simp_all add: skip_whitespace_id get_next_token.simps [of L])
qed

lemma get_next_token_EOF:
  assumes "get_next_token L = Inr (tok, L')" "token_type tok = EOF"
  shows "current_char L' = None \<and> tok = mk_Token EOF PyNone"
proof -
  let ?S = "skip_whitespace L"
  have g: "get_next_token ?S = Inr (tok, L')" using assms(1) by (simp add: get_next_token_skip)
  show ?thesis
  proof (cases "current_char ?S")
    case None
    with g show ?thesis by (auto simp: get_next_token.simps [of ?S])
  next
    case (Some c)
    with skip_whitespace_stops [of L c] have "\<not> isspace c" by simp
    with Some g assms(2) show ?thesis
      by (auto simp: get_next_token.simps [of ?S] mk_Token_def split: if_splits sum.splits)
  qed
qed

text \<open>
  C8. Once the lexer has exhausted its input (its current character is \<^verbatim>\<open>None\<close>, which
  is the case after any call that returned an \<open>EOF\<close> token), every later call of
  \<^verbatim>\<open>get_next_token\<close> returns the token \<^verbatim>\<open>Token(EOF, None)\<close> without an error and
  leaves the lexer as it was: \<open>n\<close> calls in a row return \<open>n\<close> such tokens and the same state.
\<close>

theorem eof_idempotent:
  assumes "current_char L = None \<or> (\<exists>L0 tok. get_next_token L0 = Inr (tok, L) \<and> token_type tok = EOF)"
  shows "get_next_tokens n L = Inr (replicate n (mk_Token EOF PyNone), L)"
proof -
  from assms have "current_char L = None" by (auto dest: get_next_token_EOF)
  then show ?thesis by (induction n) (simp_all add: get_next_token_exhausted)
qed

theorem eof_idempotent_witness:
  "get_next_token \<lparr>text_in = ''7 '', pos = 1, current_char = Some CHR '' ''\<rparr>
     = Inr (mk_Token EOF PyNone, \<lparr>text_in = ''7 '', pos = 2, current_char = None\<rparr>)
   \<and> get_next_tokens 3 \<lparr>text_in = ''7 '', pos = 2, current_char = None\<rparr>
     = Inr ([mk_Token EOF PyNone, mk_Token EOF PyNone, mk_Token EOF PyNone],
            \<lparr>text_in = ''7 '', pos = 2, current_char = None\<rparr>)"
proof -
  have g: "get_next_token \<lparr>text_in = ''7 '', pos = 1, current_char = Some CHR '' ''\<rparr>
     = Inr (mk_Token EOF PyNone, \<lparr>text_in = ''7 '', pos = 2, current_char = None\<rparr>)"
    by code_simp
  have "token_type (mk_Token EOF PyNone) = EOF" by (simp add: mk_Token_def)
  with g have "current_char \<lparr>text_in = ''7 '', pos = 2, current_char = None\<rparr> = None \<or>
    (\<exists>L0 tok. get_next_token L0 = Inr (tok, \<lparr>text_in = ''7 '', pos = 2, current_char = None\<rparr>)
       \<and> token_type tok = EOF)" by blast
  from eof_idempotent [OF this, of 3] g show ?thesis by (simp add: numeral_3_eq_3)
qed


text \<open>
  What the lexer does with a character that is no token: when the character it meets,
  after any whitespace it skips, fails \<^verbatim>\<open>isdigit\<close> and is none of \<^verbatim>\<open>+ - * / ( )\<close>,
  \<^verbatim>\<open>get_next_token\<close> raises \<^verbatim>\<open>LexicalError\<close>. On \<^verbatim>\<open>1 + a\<close> the first two calls
  return the tokens of \<^verbatim>\<open>1\<close> and \<^verbatim>\<open>+\<close>, the third raises \<^verbatim>\<open>LexicalError\<close>, and so
  do the parser and the interpreter, which make these calls.
\<close>

lemma lexical_error_unless_isdigit:
  "(current_char (skip_whitespace L) = Some c \<and> \<not> isdigit c \<and> c \<notin> set ''+-*/()''
      \<longrightarrow> get_next_token L = Inl LexicalError)
   \<and> get_next_tokens 2 \<lparr>text_in = ''1 + a'', pos = 0, current_char = Some CHR ''1''\<rparr>
       = Inr ([mk_Token INTEGER (PyInt 1), mk_Token PLUS (PyStr ''+'')],
              \<lparr>text_in = ''1 + a'', pos = 3, current_char = Some CHR '' ''\<rparr>)
   \<and> get_next_tokens 3 \<lparr>text_in = ''1 + a'', pos = 0, current_char = Some CHR ''1''\<rparr>
       = Inl LexicalError
   \<and> Lexer_init ''1 + a'' = Inr \<lparr>text_in = ''1 + a'', pos = 0, current_char = Some CHR ''1''\<rparr>
   \<and> parse_text ''1 + a'' = Inl LexicalError
   \<and> interpret_text ''1 + a'' = Inl LexicalError"
proof (intro conjI impI)
  assume a: "current_char (skip_whitespace L) = Some c \<and> \<not> isdigit c \<and> c \<notin> set ''+-*/()''"
  let ?S = "skip_whitespace L"
  from a skip_whitespace_stops [of L c] have "\<not> isspace c" by simp
  with a have "get_next_token ?S = Inl LexicalError"
    by (simp add: get_next_token.simps [of ?S])
  then show "get_next_token L = Inl LexicalError" by (simp add: get_next_token_skip)
qed (code_simp+)

text \<open>
  C6. The claim is that any character that is not a digit, not whitespace and none of
  \<^verbatim>\<open>+ - * / ( )\<close> makes \<^verbatim>\<open>get_next_token\<close> raise \<^verbatim>\<open>LexicalError\<close> and no other
  error. The code misses it on the superscript digits: U+00B2 is no decimal digit, no
  whitespace and no operator, but it passes \<^verbatim>\<open>isdigit\<close>, so \<^verbatim>\<open>integer\<close> collects it
  and \<^verbatim>\<open>int\<close> rejects it. On the one-character text U+00B2 the lexer, and with it the
  interpreter, raises \<^verbatim>\<open>ValueError\<close>, not \<^verbatim>\<open>LexicalError\<close>.
\<close>

theorem lexical_error_missed_on_superscript:
  "\<not> is_ascii_digit (CHR 0xB2) \<and> \<not> isspace (CHR 0xB2) \<and> CHR 0xB2 \<notin> set ''+-*/()''
   \<and> isdigit (CHR 0xB2)
   \<and> Lexer_init [CHR 0xB2] = Inr (lexer_at [CHR 0xB2] 0)
   \<and> get_next_token (lexer_at [CHR 0xB2] 0) = Inl ValueError
   \<and> get_next_token (lexer_at [CHR 0xB2] 0) \<noteq> Inl LexicalError
   \<and> interpret_text [CHR 0xB2] = Inl ValueError"
  by (intro conjI; code_simp)

lemma digit_value_nonneg: "is_ascii_digit c \<Longrightarrow> 0 \<le> digit_value c"
  by (simp add: is_ascii_digit_def digit_value_def Let_def)

lemma decimal_nonneg:
  "list_all is_ascii_digit s \<Longrightarrow> 0 \<le> acc \<Longrightarrow> 0 \<le> foldl (\<lambda>acc c. 10 * acc + digit_value c) acc s"
proof (induction s arbitrary: acc)
  case Nil
  then show ?case by simp
next
  case (Cons c s)
  from Cons.prems have "0 \<le> 10 * acc + digit_value c"
    using digit_value_nonneg [of c] by simp
  with Cons show ?case by simp
qed

lemma py_int_nonneg: "py_int s = Inr n \<Longrightarrow> 0 \<le> n"
  using decimal_nonneg [of s 0] by (auto simp: py_int_def split: if_splits)

lemma integer_nonneg: "integer L = Inr (n, L') \<Longrightarrow> 0 \<le> n"
  by (auto simp: integer_def split: prod.splits sum.splits dest: py_int_nonneg)

text \<open>
  C4 as stated: a token whose type is not \<open>INTEGER\<close> carries no value. The token the
  lexer returns for \<^verbatim>\<open>+\<close> has the type \<open>PLUS\<close> and the value \<^verbatim>\<open>"+"\<close>, which is not \<^verbatim>\<open>None\<close>.
\<close>

theorem token_value_counterexample:
  "Lexer_init ''+'' = Inr \<lparr>text_in = ''+'', pos = 0, current_char = Some CHR ''+''\<rparr>
   \<and> get_next_token \<lparr>text_in = ''+'', pos = 0, current_char = Some CHR ''+''\<rparr>
       = Inr (\<lparr>token_type = PLUS, token_value = PyStr ''+''\<rparr>,
              \<lparr>text_in = ''+'', pos = 1, current_char = None\<rparr>)
   \<and> PLUS \<noteq> INTEGER \<and> PyStr ''+'' \<noteq> PyNone"
  by code_simp

text \<open>
  C4, amended. Every token \<^verbatim>\<open>get_next_token\<close> returns holds a value fixed by its type: an
  \<open>INTEGER\<close> token a non-negative integer, the \<open>EOF\<close> token \<^verbatim>\<open>None\<close>, and each operator
  or parenthesis token its own one-character lexeme.
\<close>

theorem token_value_by_type:
  assumes "get_next_token L = Inr (tok, L')"
  shows "(case token_type tok of
            INTEGER \<Rightarrow> (\<exists>n. 0 \<le> n \<and> token_value tok = PyInt n)
          | PLUS \<Rightarrow> token_value tok = PyStr ''+''
          | MINUS \<Rightarrow> token_value tok = PyStr ''-''
          | MUL \<Rightarrow> token_value tok = PyStr ''*''
          | DIV \<Rightarrow> token_value tok = PyStr ''/''
          | LPAREN \<Rightarrow> token_value tok = PyStr ''(''
          | RPAREN \<Rightarrow> token_value tok = PyStr '')''
          | EOF \<Rightarrow> token_value tok = PyNone)"
proof -
  let ?S = "skip_whitespace L"
  have g: "get_next_token ?S = Inr (tok, L')" using assms by (simp add: get_next_token_skip)
  show ?thesis
  proof (cases "current_char ?S")
    case None
    with g show ?thesis by (auto simp: get_next_token.simps [of ?S] mk_Token_def)
  next
    case (Some c)
    with skip_whitespace_stops [of L c] have "\<not> isspace c" by simp
    with Some g show ?thesis
      by (auto simp: get_next_token.simps [of ?S] mk_Token_def
          split: if_splits sum.splits dest: integer_nonneg)
  qed
qed

theorem token_value_by_type_witness:
  "get_next_token \<lparr>text_in = ''42 )'', pos = 0, current_char = Some CHR ''4''\<rparr>
     = Inr (\<lparr>token_type = INTEGER, token_value = PyInt 42\<rparr>,
            \<lparr>text_in = ''42 )'', pos = 2, current_char = Some CHR '' ''\<rparr>)
   \<and> (\<exists>n. 0 \<le> n \<and> token_value \<lparr>token_type = INTEGER, token_value = PyInt 42\<rparr> = PyInt n)"
proof -
  have g: "get_next_token \<lparr>text_in = ''42 )'', pos = 0, current_char = Some CHR ''4''\<rparr>
     = Inr (\<lparr>token_type = INTEGER, token_value = PyInt 42\<rparr>,
            \<lparr>text_in = ''42 )'', pos = 2, current_char = Some CHR '' ''\<rparr>)"
    by code_simp
  from token_value_by_type [OF g] g show ?thesis by simp
qed

lemma skip_whitespace_all_space:
  "pos L < length (text_in L) \<Longrightarrow> current_char L = Some (text_in L ! pos L) \<Longrightarrow>
   \<forall>i. pos L \<le> i \<and> i < length (text_in L) \<longrightarrow> isspace (text_in L ! i) \<Longrightarrow>
   current_char (skip_whitespace L) = None"
proof (induction L rule: skip_whitespace.induct)
  case (1 L)
  let ?c = "text_in L ! pos L"
  from "1.prems" have sp: "isspace ?c" by simp
  have step: "skip_whitespace L = skip_whitespace (advance L)"
    using "1.prems"(2) sp by (simp add: skip_whitespace.simps [of L])
  show ?case
  proof (cases "Suc (pos L) < length (text_in L)")
    case True
    then have adv: "advance L = L\<lparr>pos := Suc (pos L), current_char := Some (text_in L ! Suc (pos L))\<rparr>"
      by (simp add: advance_def)
    have "current_char (skip_whitespace (advance L)) = None"
    proof (rule "1.IH" [OF "1.prems"(2) sp])
      show "pos (advance L) < length (text_in (advance L))" using True adv by simp
      show "current_char (advance L) = Some (text_in (advance L) ! pos (advance L))"
        using adv by simp
      show "\<forall>i. pos (advance L) \<le> i \<and> i < length (text_in (advance L))
              \<longrightarrow> isspace (text_in (advance L) ! i)"
        using "1.prems"(3) adv by simp
    qed
    with step show ?thesis by simp
  next
    case False
    then have n: "current_char (advance L) = None"
      by (simp add: advance_def)
    then have "skip_whitespace (advance L) = advance L"
      by (simp add: skip_whitespace_id)
    with step n show ?thesis by simp
  qed
qed

lemma factor_EOF: "token_type (current_token P) = EOF \<Longrightarrow> factor P = Inl ParsingError"
  by (simp add: factor.simps [of P] Let_def)

lemma expr_EOF: "token_type (current_token P) = EOF \<Longrightarrow> expr P = Inl ParsingError"
  by (simp add: expr.simps [of P] Parser_term.simps [of P] factor_EOF)

text \<open>
  C10. For every non-empty text made of whitespace only, the first token is \<open>EOF\<close>,
  \<^verbatim>\<open>factor\<close> rejects it, and both the parse and the interpretation raise
  \<^verbatim>\<open>ParsingError\<close>.
\<close>

theorem whitespace_only:
  assumes "t \<noteq> []" "\<forall>c \<in> set t. isspace c"
  shows "parse_text t = Inl ParsingError \<and> interpret_text t = Inl ParsingError"
proof -
  let ?L = "\<lparr>text_in = t, pos = 0, current_char = Some (t ! 0)\<rparr>"
  have init: "Lexer_init t = Inr ?L" using assms(1) by (simp add: Lexer_init_def)
  have "current_char (skip_whitespace ?L) = None"
    using assms by (intro skip_whitespace_all_space) simp_all
  then have "get_next_token (skip_whitespace ?L) = Inr (mk_Token EOF PyNone, skip_whitespace ?L)"
    by (rule get_next_token_exhausted)
  then have "get_next_token ?L = Inr (mk_Token EOF PyNone, skip_whitespace ?L)"
    by (simp add: get_next_token_skip)
  then have p: "Parser_init ?L = Inr \<lparr>lexer = skip_whitespace ?L, current_token = mk_Token EOF PyNone\<rparr>"
    by (simp add: Parser_init_def)
  have "expr \<lparr>lexer = skip_whitespace ?L, current_token = mk_Token EOF PyNone\<rparr> = Inl ParsingError"
    by (rule expr_EOF) (simp add: mk_Token_def)
  with init p show ?thesis
    by (simp add: parse_text_def interpret_text_def Interpreter_interpret_def)
qed

theorem whitespace_only_witness:
  "[CHR '' '', CHR 0x09, CHR 0xA0] \<noteq> []
   \<and> isspace CHR '' '' \<and> isspace CHR 0x09 \<and> isspace CHR 0xA0
   \<and> parse_text [CHR '' '', CHR 0x09, CHR 0xA0] = Inl ParsingError
   \<and> interpret_text [CHR '' '', CHR 0x09, CHR 0xA0] = Inl ParsingError"
proof -
  have h1: "[CHR '' '', CHR 0x09, CHR 0xA0] \<noteq> []" by simp
  have h2: "isspace CHR '' '' \<and> isspace CHR 0x09 \<and> isspace CHR 0xA0"
    by (simp add: isspace_def)
  then have h3: "\<forall>c \<in> set [CHR '' '', CHR 0x09, CHR 0xA0]. isspace c" by simp
  from whitespace_only [OF h1 h3] h1 h2 show ?thesis by blast
qed

section \<open>Properties of the parser and the interpreter\<close>

lemma term_loop_stop:
  "token_type (current_token P) \<notin> {MUL, DIV} \<Longrightarrow> term_loop node P = Inr (node, P)"
  by (simp add: term_loop.simps [of node P])

lemma term_loop_step:
  assumes "token_type (current_token P) \<in> {MUL, DIV}"
    and "eat P (token_type (current_token P)) = Inr P1"
    and "factor P1 = Inr (right, P2)"
  shows "term_loop node P = term_loop (BinOp node (current_token P) right) P2"
  using assms by (auto simp: term_loop.simps [of node P] Let_def)

lemma expr_loop_stop:
  "token_type (current_token P) \<notin> {PLUS, MINUS} \<Longrightarrow> expr_loop node P = Inr (node, P)"
  by (simp add: expr_loop.simps [of node P])

lemma expr_loop_step:
  assumes "token_type (current_token P) \<in> {PLUS, MINUS}"
    and "eat P (token_type (current_token P)) = Inr P1"
    and "Parser_term P1 = Inr (right, P2)"
  shows "expr_loop node P = expr_loop (BinOp node (current_token P) right) P2"
  using assms by (auto simp: expr_loop.simps [of node P] Let_def)

text \<open>
  C2. A chain of three operands joined by two operators of the same level is folded to the
  left, whatever the two operators are: when \<^verbatim>\<open>expr\<close> reads a term \<open>a\<close>, an additive
  operator, a term \<open>b\<close>, an additive operator, a term \<open>c\<close> and then a token that is not an
  additive operator, it returns \<open>BinOp (BinOp a op1 b) op2 c\<close>; \<^verbatim>\<open>term\<close> does the same
  with factors and multiplicative operators. So \<^verbatim>\<open>10 - 2 - 3\<close> parses to
  \<^verbatim>\<open>(10 - 2) - 3\<close> and evaluates to 5.
\<close>

theorem left_associative:
  "(Parser_term P0 = Inr (a, P1) \<and> token_type (current_token P1) \<in> {PLUS, MINUS}
      \<and> eat P1 (token_type (current_token P1)) = Inr P2
      \<and> Parser_term P2 = Inr (b, P3) \<and> token_type (current_token P3) \<in> {PLUS, MINUS}
      \<and> eat P3 (token_type (current_token P3)) = Inr P4
      \<and> Parser_term P4 = Inr (c, P5) \<and> token_type (current_token P5) \<notin> {PLUS, MINUS}
    \<longrightarrow> expr P0 = Inr (BinOp (BinOp a (current_token P1) b) (current_token P3) c, P5))
   \<and> (factor Q0 = Inr (a', Q1) \<and> token_type (current_token Q1) \<in> {MUL, DIV}
      \<and> eat Q1 (token_type (current_token Q1)) = Inr Q2
      \<and> factor Q2 = Inr (b', Q3) \<and> token_type (current_token Q3) \<in> {MUL, DIV}
      \<and> eat Q3 (token_type (current_token Q3)) = Inr Q4
      \<and> factor Q4 = Inr (c', Q5) \<and> token_type (current_token Q5) \<notin> {MUL, DIV}
    \<longrightarrow> Parser_term Q0 = Inr (BinOp (BinOp a' (current_token Q1) b') (current_token Q3) c', Q5))
   \<and> parse_text ''10 - 2 - 3''
       = Inr (BinOp (BinOp (Num (mk_Token INTEGER (PyInt 10))) (mk_Token MINUS (PyStr ''-''))
                           (Num (mk_Token INTEGER (PyInt 2))))
                    (mk_Token MINUS (PyStr ''-'')) (Num (mk_Token INTEGER (PyInt 3))),
              parser_at ''10 - 2 - 3'' 10 (mk_Token EOF PyNone))
   \<and> interpret_text ''10 - 2 - 3'' = Inr (PyInt 5)"
proof (intro conjI impI)
  assume h: "Parser_term P0 = Inr (a, P1) \<and> token_type (current_token P1) \<in> {PLUS, MINUS}
      \<and> eat P1 (token_type (current_token P1)) = Inr P2
      \<and> Parser_term P2 = Inr (b, P3) \<and> token_type (current_token P3) \<in> {PLUS, MINUS}
      \<and> eat P3 (token_type (current_token P3)) = Inr P4
      \<and> Parser_term P4 = Inr (c, P5) \<and> token_type (current_token P5) \<notin> {PLUS, MINUS}"
  then have t1: "token_type (current_token P1) \<in> {PLUS, MINUS}"
    and e1: "eat P1 (token_type (current_token P1)) = Inr P2" and b: "Parser_term P2 = Inr (b, P3)"
    and t3: "token_type (current_token P3) \<in> {PLUS, MINUS}"
    and e3: "eat P3 (token_type (current_token P3)) = Inr P4" and c: "Parser_term P4 = Inr (c, P5)"
    and t5: "token_type (current_token P5) \<notin> {PLUS, MINUS}"
    by blast+
  have "expr P0 = expr_loop a P1" using h by (simp add: expr.simps [of P0])
  also have "\<dots> = expr_loop (BinOp a (current_token P1) b) P3"
    by (rule expr_loop_step [OF t1 e1 b])
  also have "\<dots> = expr_loop (BinOp (BinOp a (current_token P1) b) (current_token P3) c) P5"
    by (rule expr_loop_step [OF t3 e3 c])
  also have "\<dots> = Inr (BinOp (BinOp a (current_token P1) b) (current_token P3) c, P5)"
    by (rule expr_loop_stop [OF t5])
  finally show "expr P0 = Inr (BinOp (BinOp a (current_token P1) b) (current_token P3) c, P5)" .
next
  assume h: "factor Q0 = Inr (a', Q1) \<and> token_type (current_token Q1) \<in> {MUL, DIV}
      \<and> eat Q1 (token_type (current_token Q1)) = Inr Q2
      \<and> factor Q2 = Inr (b', Q3) \<and> token_type (current_token Q3) \<in> {MUL, DIV}
      \<and> eat Q3 (token_type (current_token Q3)) = Inr Q4
      \<and> factor Q4 = Inr (c', Q5) \<and> token_type (current_token Q5) \<notin> {MUL, DIV}"
  then have t1: "token_type (current_token Q1) \<in> {MUL, DIV}"
    and e1: "eat Q1 (token_type (current_token Q1)) = Inr Q2" and b: "factor Q2 = Inr (b', Q3)"
    and t3: "token_type (current_token Q3) \<in> {MUL, DIV}"
    and e3: "eat Q3 (token_type (current_token Q3)) = Inr Q4" and c: "factor Q4 = Inr (c', Q5)"
    and t5: "token_type (current_token Q5) \<notin> {MUL, DIV}"
    by blast+
  have "Parser_term Q0 = term_loop a' Q1" using h by (simp add: Parser_term.simps [of Q0])
  also have "\<dots> = term_loop (BinOp a' (current_token Q1) b') Q3"
    by (rule term_loop_step [OF t1 e1 b])
  also have "\<dots> = term_loop (BinOp (BinOp a' (current_token Q1) b') (current_token Q3) c') Q5"
    by (rule term_loop_step [OF t3 e3 c])
  also have "\<dots> = Inr (BinOp (BinOp a' (current_token Q1) b') (current_token Q3) c', Q5)"
    by (rule term_loop_stop [OF t5])
  finally show "Parser_term Q0 = Inr (BinOp (BinOp a' (current_token Q1) b') (current_token Q3) c', Q5)" .
qed (code_simp+)

theorem left_associative_witness:
  "(Parser_term (parser_at ''10 - 2 - 3'' 2 (mk_Token INTEGER (PyInt 10))) = Inr (Num (mk_Token INTEGER (PyInt 10)), (parser_at ''10 - 2 - 3'' 4 (mk_Token MINUS (PyStr ''-''))))
      \<and> token_type (current_token (parser_at ''10 - 2 - 3'' 4 (mk_Token MINUS (PyStr ''-'')))) \<in> {PLUS, MINUS}
      \<and> eat (parser_at ''10 - 2 - 3'' 4 (mk_Token MINUS (PyStr ''-''))) (token_type (current_token (parser_at ''10 - 2 - 3'' 4 (mk_Token MINUS (PyStr ''-''))))) = Inr (parser_at ''10 - 2 - 3'' 6 (mk_Token INTEGER (PyInt 2)))
      \<and> Parser_term (parser_at ''10 - 2 - 3'' 6 (mk_Token INTEGER (PyInt 2))) = Inr (Num (mk_Token INTEGER (PyInt 2)), (parser_at ''10 - 2 - 3'' 8 (mk_Token MINUS (PyStr ''-''))))
      \<and> token_type (current_token (parser_at ''10 - 2 - 3'' 8 (mk_Token MINUS (PyStr ''-'')))) \<in> {PLUS, MINUS}
      \<and> eat (parser_at ''10 - 2 - 3'' 8 (mk_Token MINUS (PyStr ''-''))) (token_type (current_token (parser_at ''10 - 2 - 3'' 8 (mk_Token MINUS (PyStr ''-''))))) = Inr (parser_at ''10 - 2 - 3'' 10 (mk_Token INTEGER (PyInt 3)))
      \<and> Parser_term (parser_at ''10 - 2 - 3'' 10 (mk_Token INTEGER (PyInt 3))) = Inr (Num (mk_Token INTEGER (PyInt 3)), (parser_at ''10 - 2 - 3'' 10 (mk_Token EOF PyNone)))
      \<and> token_type (current_token (parser_at ''10 - 2 - 3'' 10 (mk_Token EOF PyNone))) \<notin> {PLUS, MINUS})
   \<and> expr (parser_at ''10 - 2 - 3'' 2 (mk_Token INTEGER (PyInt 10))) = Inr (BinOp (BinOp (Num (mk_Token INTEGER (PyInt 10))) (current_token (parser_at ''10 - 2 - 3'' 4 (mk_Token MINUS (PyStr ''-'')))) (Num (mk_Token INTEGER (PyInt 2)))) (current_token (parser_at ''10 - 2 - 3'' 8 (mk_Token MINUS (PyStr ''-'')))) (Num (mk_Token INTEGER (PyInt 3))), (parser_at ''10 - 2 - 3'' 10 (mk_Token EOF PyNone)))
   \<and> (factor (parser_at ''8 / 4 / 2'' 1 (mk_Token INTEGER (PyInt 8))) = Inr (Num (mk_Token INTEGER (PyInt 8)), (parser_at ''8 / 4 / 2'' 3 (mk_Token DIV (PyStr ''/''))))
      \<and> token_type (current_token (parser_at ''8 / 4 / 2'' 3 (mk_Token DIV (PyStr ''/'')))) \<in> {MUL, DIV}
      \<and> eat (parser_at ''8 / 4 / 2'' 3 (mk_Token DIV (PyStr ''/''))) (token_type (current_token (parser_at ''8 / 4 / 2'' 3 (mk_Token DIV (PyStr ''/''))))) = Inr (parser_at ''8 / 4 / 2'' 5 (mk_Token INTEGER (PyInt 4)))
      \<and> factor (parser_at ''8 / 4 / 2'' 5 (mk_Token INTEGER (PyInt 4))) = Inr (Num (mk_Token INTEGER (PyInt 4)), (parser_at ''8 / 4 / 2'' 7 (mk_Token DIV (PyStr ''/''))))
      \<and> token_type (current_token (parser_at ''8 / 4 / 2'' 7 (mk_Token DIV (PyStr ''/'')))) \<in> {MUL, DIV}
      \<and> eat (parser_at ''8 / 4 / 2'' 7 (mk_Token DIV (PyStr ''/''))) (token_type (current_token (parser_at ''8 / 4 / 2'' 7 (mk_Token DIV (PyStr ''/''))))) = Inr (parser_at ''8 / 4 / 2'' 9 (mk_Token INTEGER (PyInt 2)))
      \<and> factor (parser_at ''8 / 4 / 2'' 9 (mk_Token INTEGER (PyInt 2))) = Inr (Num (mk_Token INTEGER (PyInt 2)), (parser_at ''8 / 4 / 2'' 9 (mk_Token EOF PyNone)))
      \<and> token_type (current_token (parser_at ''8 / 4 / 2'' 9 (mk_Token EOF PyNone))) \<notin> {MUL, DIV})
   \<and> Parser_term (parser_at ''8 / 4 / 2'' 1 (mk_Token INTEGER (PyInt 8))) = Inr (BinOp (BinOp (Num (mk_Token INTEGER (PyInt 8))) (current_token (parser_at ''8 / 4 / 2'' 3 (mk_Token DIV (PyStr ''/'')))) (Num (mk_Token INTEGER (PyInt 4)))) (current_token (parser_at ''8 / 4 / 2'' 7 (mk_Token DIV (PyStr ''/'')))) (Num (mk_Token INTEGER (PyInt 2))), (parser_at ''8 / 4 / 2'' 9 (mk_Token EOF PyNone)))"
proof -
  have h1: "Parser_term (parser_at ''10 - 2 - 3'' 2 (mk_Token INTEGER (PyInt 10))) = Inr (Num (mk_Token INTEGER (PyInt 10)), (parser_at ''10 - 2 - 3'' 4 (mk_Token MINUS (PyStr ''-''))))
      \<and> token_type (current_token (parser_at ''10 - 2 - 3'' 4 (mk_Token MINUS (PyStr ''-'')))) \<in> {PLUS, MINUS}
      \<and> eat (parser_at ''10 - 2 - 3'' 4 (mk_Token MINUS (PyStr ''-''))) (token_type (current_token (parser_at ''10 - 2 - 3'' 4 (mk_Token MINUS (PyStr ''-''))))) = Inr (parser_at ''10 - 2 - 3'' 6 (mk_Token INTEGER (PyInt 2)))
      \<and> Parser_term (parser_at ''10 - 2 - 3'' 6 (mk_Token INTEGER (PyInt 2))) = Inr (Num (mk_Token INTEGER (PyInt 2)), (parser_at ''10 - 2 - 3'' 8 (mk_Token MINUS (PyStr ''-''))))
      \<and> token_type (current_token (parser_at ''10 - 2 - 3'' 8 (mk_Token MINUS (PyStr ''-'')))) \<in> {PLUS, MINUS}
      \<and> eat (parser_at ''10 - 2 - 3'' 8 (mk_Token MINUS (PyStr ''-''))) (token_type (current_token (parser_at ''10 - 2 - 3'' 8 (mk_Token MINUS (PyStr ''-''))))) = Inr (parser_at ''10 - 2 - 3'' 10 (mk_Token INTEGER (PyInt 3)))
      \<and> Parser_term (parser_at ''10 - 2 - 3'' 10 (mk_Token INTEGER (PyInt 3))) = Inr (Num (mk_Token INTEGER (PyInt 3)), (parser_at ''10 - 2 - 3'' 10 (mk_Token EOF PyNone)))
      \<and> token_type (current_token (parser_at ''10 - 2 - 3'' 10 (mk_Token EOF PyNone))) \<notin> {PLUS, MINUS}"
    by (intro conjI; code_simp)
  have h2: "factor (parser_at ''8 / 4 / 2'' 1 (mk_Token INTEGER (PyInt 8))) = Inr (Num (mk_Token INTEGER (PyInt 8)), (parser_at ''8 / 4 / 2'' 3 (mk_Token DIV (PyStr ''/''))))
      \<and> token_type (current_token (parser_at ''8 / 4 / 2'' 3 (mk_Token DIV (PyStr ''/'')))) \<in> {MUL, DIV}
      \<and> eat (parser_at ''8 / 4 / 2'' 3 (mk_Token DIV (PyStr ''/''))) (token_type (current_token (parser_at ''8 / 4 / 2'' 3 (mk_Token DIV (PyStr ''/''))))) = Inr (parser_at ''8 / 4 / 2'' 5 (mk_Token INTEGER (PyInt 4)))
      \<and> factor (parser_at ''8 / 4 / 2'' 5 (mk_Token INTEGER (PyInt 4))) = Inr (Num (mk_Token INTEGER (PyInt 4)), (parser_at ''8 / 4 / 2'' 7 (mk_Token DIV (PyStr ''/''))))
      \<and> token_type (current_token (parser_at ''8 / 4 / 2'' 7 (mk_Token DIV (PyStr ''/'')))) \<in> {MUL, DIV}
      \<and> eat (parser_at ''8 / 4 / 2'' 7 (mk_Token DIV (PyStr ''/''))) (token_type (current_token (parser_at ''8 / 4 / 2'' 7 (mk_Token DIV (PyStr ''/''))))) = Inr (parser_at ''8 / 4 / 2'' 9 (mk_Token INTEGER (PyInt 2)))
      \<and> factor (parser_at ''8 / 4 / 2'' 9 (mk_Token INTEGER (PyInt 2))) = Inr (Num (mk_Token INTEGER (PyInt 2)), (parser_at ''8 / 4 / 2'' 9 (mk_Token EOF PyNone)))
      \<and> token_type (current_token (parser_at ''8 / 4 / 2'' 9 (mk_Token EOF PyNone))) \<notin> {MUL, DIV}"
    by (intro conjI; code_simp)
  have i1: "(Parser_term (parser_at ''10 - 2 - 3'' 2 (mk_Token INTEGER (PyInt 10))) = Inr (Num (mk_Token INTEGER (PyInt 10)), (parser_at ''10 - 2 - 3'' 4 (mk_Token MINUS (PyStr ''-''))))
      \<and> token_type (current_token (parser_at ''10 - 2 - 3'' 4 (mk_Token MINUS (PyStr ''-'')))) \<in> {PLUS, MINUS}
      \<and> eat (parser_at ''10 - 2 - 3'' 4 (mk_Token MINUS (PyStr ''-''))) (token_type (current_token (parser_at ''10 - 2 - 3'' 4 (mk_Token MINUS (PyStr ''-''))))) = Inr (parser_at ''10 - 2 - 3'' 6 (mk_Token INTEGER (PyInt 2)))
      \<and> Parser_term (parser_at ''10 - 2 - 3'' 6 (mk_Token INTEGER (PyInt 2))) = Inr (Num (mk_Token INTEGER (PyInt 2)), (parser_at ''10 - 2 - 3'' 8 (mk_Token MINUS (PyStr ''-''))))
      \<and> token_type (current_token (parser_at ''10 - 2 - 3'' 8 (mk_Token MINUS (PyStr ''-'')))) \<in> {PLUS, MINUS}
      \<and> eat (parser_at ''10 - 2 - 3'' 8 (mk_Token MINUS (PyStr ''-''))) (token_type (current_token (parser_at ''10 - 2 - 3'' 8 (mk_Token MINUS (PyStr ''-''))))) = Inr (parser_at ''10 - 2 - 3'' 10 (mk_Token INTEGER (PyInt 3)))
      \<and> Parser_term (parser_at ''10 - 2 - 3'' 10 (mk_Token INTEGER (PyInt 3))) = Inr (Num (mk_Token INTEGER (PyInt 3)), (parser_at ''10 - 2 - 3'' 10 (mk_Token EOF PyNone)))
      \<and> token_type (current_token (parser_at ''10 - 2 - 3'' 10 (mk_Token EOF PyNone))) \<notin> {PLUS, MINUS})
    \<longrightarrow> expr (parser_at ''10 - 2 - 3'' 2 (mk_Token INTEGER (PyInt 10))) = Inr (BinOp (BinOp (Num (mk_Token INTEGER (PyInt 10))) (current_token (parser_at ''10 - 2 - 3'' 4 (mk_Token MINUS (PyStr ''-'')))) (Num (mk_Token INTEGER (PyInt 2)))) (current_token (parser_at ''10 - 2 - 3'' 8 (mk_Token MINUS (PyStr ''-'')))) (Num (mk_Token INTEGER (PyInt 3))), (parser_at ''10 - 2 - 3'' 10 (mk_Token EOF PyNone)))"
    by (rule left_associative [THEN conjunct1])
  have i2: "(factor (parser_at ''8 / 4 / 2'' 1 (mk_Token INTEGER (PyInt 8))) = Inr (Num (mk_Token INTEGER (PyInt 8)), (parser_at ''8 / 4 / 2'' 3 (mk_Token DIV (PyStr ''/''))))
      \<and> token_type (current_token (parser_at ''8 / 4 / 2'' 3 (mk_Token DIV (PyStr ''/'')))) \<in> {MUL, DIV}
      \<and> eat (parser_at ''8 / 4 / 2'' 3 (mk_Token DIV (PyStr ''/''))) (token_type (current_token (parser_at ''8 / 4 / 2'' 3 (mk_Token DIV (PyStr ''/''))))) = Inr (parser_at ''8 / 4 / 2'' 5 (mk_Token INTEGER (PyInt 4)))
      \<and> factor (parser_at ''8 / 4 / 2'' 5 (mk_Token INTEGER (PyInt 4))) = Inr (Num (mk_Token INTEGER (PyInt 4)), (parser_at ''8 / 4 / 2'' 7 (mk_Token DIV (PyStr ''/''))))
      \<and> token_type (current_token (parser_at ''8 / 4 / 2'' 7 (mk_Token DIV (PyStr ''/'')))) \<in> {MUL, DIV}
      \<and> eat (parser_at ''8 / 4 / 2'' 7 (mk_Token DIV (PyStr ''/''))) (token_type (current_token (parser_at ''8 / 4 / 2'' 7 (mk_Token DIV (PyStr ''/''))))) = Inr (parser_at ''8 / 4 / 2'' 9 (mk_Token INTEGER (PyInt 2)))
      \<and> factor (parser_at ''8 / 4 / 2'' 9 (mk_Token INTEGER (PyInt 2))) = Inr (Num (mk_Token INTEGER (PyInt 2)), (parser_at ''8 / 4 / 2'' 9 (mk_Token EOF PyNone)))
      \<and> token_type (current_token (parser_at ''8 / 4 / 2'' 9 (mk_Token EOF PyNone))) \<notin> {MUL, DIV})
    \<longrightarrow> Parser_term (parser_at ''8 / 4 / 2'' 1 (mk_Token INTEGER (PyInt 8))) = Inr (BinOp (BinOp (Num (mk_Token INTEGER (PyInt 8))) (current_token (parser_at ''8 / 4 / 2'' 3 (mk_Token DIV (PyStr ''/'')))) (Num (mk_Token INTEGER (PyInt 4)))) (current_token (parser_at ''8 / 4 / 2'' 7 (mk_Token DIV (PyStr ''/'')))) (Num (mk_Token INTEGER (PyInt 2))), (parser_at ''8 / 4 / 2'' 9 (mk_Token EOF PyNone)))"
    by (rule left_associative [THEN conjunct2, THEN conjunct1])
  from h1 i1 have c1: "expr (parser_at ''10 - 2 - 3'' 2 (mk_Token INTEGER (PyInt 10))) = Inr (BinOp (BinOp (Num (mk_Token INTEGER (PyInt 10))) (current_token (parser_at ''10 - 2 - 3'' 4 (mk_Token MINUS (PyStr ''-'')))) (Num (mk_Token INTEGER (PyInt 2)))) (current_token (parser_at ''10 - 2 - 3'' 8 (mk_Token MINUS (PyStr ''-'')))) (Num (mk_Token INTEGER (PyInt 3))), (parser_at ''10 - 2 - 3'' 10 (mk_Token EOF PyNone)))" by (rule rev_mp)
  from h2 i2 have c2: "Parser_term (parser_at ''8 / 4 / 2'' 1 (mk_Token INTEGER (PyInt 8))) = Inr (BinOp (BinOp (Num (mk_Token INTEGER (PyInt 8))) (current_token (parser_at ''8 / 4 / 2'' 3 (mk_Token DIV (PyStr ''/'')))) (Num (mk_Token INTEGER (PyInt 4)))) (current_token (parser_at ''8 / 4 / 2'' 7 (mk_Token DIV (PyStr ''/'')))) (Num (mk_Token INTEGER (PyInt 2))), (parser_at ''8 / 4 / 2'' 9 (mk_Token EOF PyNone)))" by (rule rev_mp)
  show ?thesis by (rule conjI [OF h1 conjI [OF c1 conjI [OF h2 c2]]])
qed

text \<open>
  C1. Multiplicative operators bind tighter than additive ones because \<^verbatim>\<open>expr\<close> takes its
  operands from \<^verbatim>\<open>term\<close>: when the input is a factor \<open>a\<close>, an additive operator, a
  factor \<open>b\<close>, a multiplicative operator, a factor \<open>c\<close> and then a token that is no
  operator of either level, \<^verbatim>\<open>expr\<close> returns \<open>BinOp a op1 (BinOp b op2 c)\<close>. So
  \<^verbatim>\<open>2 + 3 * 4\<close> parses to \<^verbatim>\<open>2 + (3 * 4)\<close> and evaluates to 14, not 20.
\<close>

theorem precedence:
  "(factor P0 = Inr (a, P1) \<and> token_type (current_token P1) \<in> {PLUS, MINUS}
      \<and> eat P1 (token_type (current_token P1)) = Inr P2
      \<and> factor P2 = Inr (b, P3) \<and> token_type (current_token P3) \<in> {MUL, DIV}
      \<and> eat P3 (token_type (current_token P3)) = Inr P4
      \<and> factor P4 = Inr (c, P5) \<and> token_type (current_token P5) \<notin> {MUL, DIV, PLUS, MINUS}
    \<longrightarrow> expr P0 = Inr (BinOp a (current_token P1) (BinOp b (current_token P3) c), P5))
   \<and> parse_text ''2 + 3 * 4''
       = Inr (BinOp (Num (mk_Token INTEGER (PyInt 2))) (mk_Token PLUS (PyStr ''+''))
                    (BinOp (Num (mk_Token INTEGER (PyInt 3))) (mk_Token MUL (PyStr ''*''))
                           (Num (mk_Token INTEGER (PyInt 4)))),
              parser_at ''2 + 3 * 4'' 9 (mk_Token EOF PyNone))
   \<and> interpret_text ''2 + 3 * 4'' = Inr (PyInt 14)
   \<and> interpret_text ''2 + 3 * 4'' \<noteq> Inr (PyInt 20)"
proof (intro conjI impI)
  assume h: "factor P0 = Inr (a, P1) \<and> token_type (current_token P1) \<in> {PLUS, MINUS}
      \<and> eat P1 (token_type (current_token P1)) = Inr P2
      \<and> factor P2 = Inr (b, P3) \<and> token_type (current_token P3) \<in> {MUL, DIV}
      \<and> eat P3 (token_type (current_token P3)) = Inr P4
      \<and> factor P4 = Inr (c, P5) \<and> token_type (current_token P5) \<notin> {MUL, DIV, PLUS, MINUS}"
  then have a: "factor P0 = Inr (a, P1)" and t1: "token_type (current_token P1) \<in> {PLUS, MINUS}"
    and e1: "eat P1 (token_type (current_token P1)) = Inr P2" and b: "factor P2 = Inr (b, P3)"
    and t3: "token_type (current_token P3) \<in> {MUL, DIV}"
    and e3: "eat P3 (token_type (current_token P3)) = Inr P4" and c: "factor P4 = Inr (c, P5)"
    and t5: "token_type (current_token P5) \<notin> {MUL, DIV, PLUS, MINUS}"
    by blast+
  from t1 have n1: "token_type (current_token P1) \<notin> {MUL, DIV}" by auto
  from t5 have n5: "token_type (current_token P5) \<notin> {MUL, DIV}"
    and m5: "token_type (current_token P5) \<notin> {PLUS, MINUS}" by auto
  have ta: "Parser_term P0 = Inr (a, P1)"
    using a term_loop_stop [OF n1] by (simp add: Parser_term.simps [of P0])
  have "Parser_term P2 = term_loop b P3" using b by (simp add: Parser_term.simps [of P2])
  also have "\<dots> = term_loop (BinOp b (current_token P3) c) P5"
    by (rule term_loop_step [OF t3 e3 c])
  also have "\<dots> = Inr (BinOp b (current_token P3) c, P5)" by (rule term_loop_stop [OF n5])
  finally have tb: "Parser_term P2 = Inr (BinOp b (current_token P3) c, P5)" .
  have "expr P0 = expr_loop a P1" using ta by (simp add: expr.simps [of P0])
  also have "\<dots> = expr_loop (BinOp a (current_token P1) (BinOp b (current_token P3) c)) P5"
    by (rule expr_loop_step [OF t1 e1 tb])
  also have "\<dots> = Inr (BinOp a (current_token P1) (BinOp b (current_token P3) c), P5)"
    by (rule expr_loop_stop [OF m5])
  finally show "expr P0 = Inr (BinOp a (current_token P1) (BinOp b (current_token P3) c), P5)" .
qed (code_simp+)

theorem precedence_witness:
  "(factor (parser_at ''2 + 3 * 4'' 1 (mk_Token INTEGER (PyInt 2))) = Inr (Num (mk_Token INTEGER (PyInt 2)), (parser_at ''2 + 3 * 4'' 3 (mk_Token PLUS (PyStr ''+''))))
      \<and> token_type (current_token (parser_at ''2 + 3 * 4'' 3 (mk_Token PLUS (PyStr ''+'')))) \<in> {PLUS, MINUS}
      \<and> eat (parser_at ''2 + 3 * 4'' 3 (mk_Token PLUS (PyStr ''+''))) (token_type (current_token (parser_at ''2 + 3 * 4'' 3 (mk_Token PLUS (PyStr ''+''))))) = Inr (parser_at ''2 + 3 * 4'' 5 (mk_Token INTEGER (PyInt 3)))
      \<and> factor (parser_at ''2 + 3 * 4'' 5 (mk_Token INTEGER (PyInt 3))) = Inr (Num (mk_Token INTEGER (PyInt 3)), (parser_at ''2 + 3 * 4'' 7 (mk_Token MUL (PyStr ''*''))))
      \<and> token_type (current_token (parser_at ''2 + 3 * 4'' 7 (mk_Token MUL (PyStr ''*'')))) \<in> {MUL, DIV}
      \<and> eat (parser_at ''2 + 3 * 4'' 7 (mk_Token MUL (PyStr ''*''))) (token_type (current_token (parser_at ''2 + 3 * 4'' 7 (mk_Token MUL (PyStr ''*''))))) = Inr (parser_at ''2 + 3 * 4'' 9 (mk_Token INTEGER (PyInt 4)))
      \<and> factor (parser_at ''2 + 3 * 4'' 9 (mk_Token INTEGER (PyInt 4))) = Inr (Num (mk_Token INTEGER (PyInt 4)), (parser_at ''2 + 3 * 4'' 9 (mk_Token EOF PyNone)))
      \<and> token_type (current_token (parser_at ''2 + 3 * 4'' 9 (mk_Token EOF PyNone))) \<notin> {MUL, DIV, PLUS, MINUS})
   \<and> expr (parser_at ''2 + 3 * 4'' 1 (mk_Token INTEGER (PyInt 2))) = Inr (BinOp (Num (mk_Token INTEGER (PyInt 2))) (current_token (parser_at ''2 + 3 * 4'' 3 (mk_Token PLUS (PyStr ''+'')))) (BinOp (Num (mk_Token INTEGER (PyInt 3))) (current_token (parser_at ''2 + 3 * 4'' 7 (mk_Token MUL (PyStr ''*'')))) (Num (mk_Token INTEGER (PyInt 4)))), (parser_at ''2 + 3 * 4'' 9 (mk_Token EOF PyNone)))"
proof -
  have h: "factor (parser_at ''2 + 3 * 4'' 1 (mk_Token INTEGER (PyInt 2))) = Inr (Num (mk_Token INTEGER (PyInt 2)), (parser_at ''2 + 3 * 4'' 3 (mk_Token PLUS (PyStr ''+''))))
      \<and> token_type (current_token (parser_at ''2 + 3 * 4'' 3 (mk_Token PLUS (PyStr ''+'')))) \<in> {PLUS, MINUS}
      \<and> eat (parser_at ''2 + 3 * 4'' 3 (mk_Token PLUS (PyStr ''+''))) (token_type (current_token (parser_at ''2 + 3 * 4'' 3 (mk_Token PLUS (PyStr ''+''))))) = Inr (parser_at ''2 + 3 * 4'' 5 (mk_Token INTEGER (PyInt 3)))
      \<and> factor (parser_at ''2 + 3 * 4'' 5 (mk_Token INTEGER (PyInt 3))) = Inr (Num (mk_Token INTEGER (PyInt 3)), (parser_at ''2 + 3 * 4'' 7 (mk_Token MUL (PyStr ''*''))))
      \<and> token_type (current_token (parser_at ''2 + 3 * 4'' 7 (mk_Token MUL (PyStr ''*'')))) \<in> {MUL, DIV}
      \<and> eat (parser_at ''2 + 3 * 4'' 7 (mk_Token MUL (PyStr ''*''))) (token_type (current_token (parser_at ''2 + 3 * 4'' 7 (mk_Token MUL (PyStr ''*''))))) = Inr (parser_at ''2 + 3 * 4'' 9 (mk_Token INTEGER (PyInt 4)))
      \<and> factor (parser_at ''2 + 3 * 4'' 9 (mk_Token INTEGER (PyInt 4))) = Inr (Num (mk_Token INTEGER (PyInt 4)), (parser_at ''2 + 3 * 4'' 9 (mk_Token EOF PyNone)))
      \<and> token_type (current_token (parser_at ''2 + 3 * 4'' 9 (mk_Token EOF PyNone))) \<notin> {MUL, DIV, PLUS, MINUS}"
    by (intro conjI; code_simp)
  have i: "(factor (parser_at ''2 + 3 * 4'' 1 (mk_Token INTEGER (PyInt 2))) = Inr (Num (mk_Token INTEGER (PyInt 2)), (parser_at ''2 + 3 * 4'' 3 (mk_Token PLUS (PyStr ''+''))))
      \<and> token_type (current_token (parser_at ''2 + 3 * 4'' 3 (mk_Token PLUS (PyStr ''+'')))) \<in> {PLUS, MINUS}
      \<and> eat (parser_at ''2 + 3 * 4'' 3 (mk_Token PLUS (PyStr ''+''))) (token_type (current_token (parser_at ''2 + 3 * 4'' 3 (mk_Token PLUS (PyStr ''+''))))) = Inr (parser_at ''2 + 3 * 4'' 5 (mk_Token INTEGER (PyInt 3)))
      \<and> factor (parser_at ''2 + 3 * 4'' 5 (mk_Token INTEGER (PyInt 3))) = Inr (Num (mk_Token INTEGER (PyInt 3)), (parser_at ''2 + 3 * 4'' 7 (mk_Token MUL (PyStr ''*''))))
      \<and> token_type (current_token (parser_at ''2 + 3 * 4'' 7 (mk_Token MUL (PyStr ''*'')))) \<in> {MUL, DIV}
      \<and> eat (parser_at ''2 + 3 * 4'' 7 (mk_Token MUL (PyStr ''*''))) (token_type (current_token (parser_at ''2 + 3 * 4'' 7 (mk_Token MUL (PyStr ''*''))))) = Inr (parser_at ''2 + 3 * 4'' 9 (mk_Token INTEGER (PyInt 4)))
      \<and> factor (parser_at ''2 + 3 * 4'' 9 (mk_Token INTEGER (PyInt 4))) = Inr (Num (mk_Token INTEGER (PyInt 4)), (parser_at ''2 + 3 * 4'' 9 (mk_Token EOF PyNone)))
      \<and> token_type (current_token (parser_at ''2 + 3 * 4'' 9 (mk_Token EOF PyNone))) \<notin> {MUL, DIV, PLUS, MINUS})
    \<longrightarrow> expr (parser_at ''2 + 3 * 4'' 1 (mk_Token INTEGER (PyInt 2))) = Inr (BinOp (Num (mk_Token INTEGER (PyInt 2))) (current_token (parser_at ''2 + 3 * 4'' 3 (mk_Token PLUS (PyStr ''+'')))) (BinOp (Num (mk_Token INTEGER (PyInt 3))) (current_token (parser_at ''2 + 3 * 4'' 7 (mk_Token MUL (PyStr ''*'')))) (Num (mk_Token INTEGER (PyInt 4)))), (parser_at ''2 + 3 * 4'' 9 (mk_Token EOF PyNone)))"
    by (rule precedence [THEN conjunct1])
  from h i have c: "expr (parser_at ''2 + 3 * 4'' 1 (mk_Token INTEGER (PyInt 2))) = Inr (BinOp (Num (mk_Token INTEGER (PyInt 2))) (current_token (parser_at ''2 + 3 * 4'' 3 (mk_Token PLUS (PyStr ''+'')))) (BinOp (Num (mk_Token INTEGER (PyInt 3))) (current_token (parser_at ''2 + 3 * 4'' 7 (mk_Token MUL (PyStr ''*'')))) (Num (mk_Token INTEGER (PyInt 4)))), (parser_at ''2 + 3 * 4'' 9 (mk_Token EOF PyNone)))" by (rule rev_mp)
  show ?thesis by (rule conjI [OF h c])
qed



text \<open>
  C5. \<^verbatim>\<open>expr\<close> does not ask for \<open>EOF\<close> after the expression: on \<^verbatim>\<open>1 + 2) 3\<close> the parse
  succeeds with the tree of \<^verbatim>\<open>1 + 2\<close>, the lookahead left at the \<^verbatim>\<open>)\<close> and the rest of
  the text unread, and the interpreter returns 3.
\<close>

theorem trailing_tokens_ignored:
  "parse_text ''1 + 2) 3''
     = Inr (BinOp (Num (mk_Token INTEGER (PyInt 1))) (mk_Token PLUS (PyStr ''+''))
                  (Num (mk_Token INTEGER (PyInt 2))),
            parser_at ''1 + 2) 3'' 6 (mk_Token RPAREN (PyStr '')'')))
   \<and> parse_text ''1 + 2''
     = Inr (BinOp (Num (mk_Token INTEGER (PyInt 1))) (mk_Token PLUS (PyStr ''+''))
                  (Num (mk_Token INTEGER (PyInt 2))),
            parser_at ''1 + 2'' 5 (mk_Token EOF PyNone))
   \<and> token_type (current_token (parser_at ''1 + 2) 3'' 6 (mk_Token RPAREN (PyStr '')'')))) \<noteq> EOF
   \<and> interpret_text ''1 + 2) 3'' = Inr (PyInt 3)"
  by (intro conjI; code_simp)

lemma eat_mismatch: "token_type (current_token P) \<noteq> tt \<Longrightarrow> eat P tt = Inl ParsingError"
  by (simp add: eat_def)

text \<open>
  C7. An opening parenthesis that is not followed, after its expression, by a closing one
  makes the parse fail with \<^verbatim>\<open>ParsingError\<close>: when \<^verbatim>\<open>factor\<close> has eaten the \<^verbatim>\<open>(\<close> and
  \<^verbatim>\<open>expr\<close> has returned with a lookahead that is not \<open>RPAREN\<close> (another token, or
  \<open>EOF\<close> when the text has ended), \<^verbatim>\<open>eat(RPAREN)\<close> raises \<^verbatim>\<open>ParsingError\<close> and so
  does \<^verbatim>\<open>factor\<close>. On \<^verbatim>\<open>(1 + 2\<close> the parse and the interpretation raise it.
\<close>

theorem unmatched_parenthesis:
  "(token_type (current_token P) = LPAREN \<and> eat P LPAREN = Inr P1
      \<and> expr P1 = Inr (node, P2) \<and> token_type (current_token P2) \<noteq> RPAREN
    \<longrightarrow> eat P2 RPAREN = Inl ParsingError \<and> factor P = Inl ParsingError)
   \<and> parse_text ''(1 + 2'' = Inl ParsingError
   \<and> interpret_text ''(1 + 2'' = Inl ParsingError"
proof (intro conjI impI)
  assume h: "token_type (current_token P) = LPAREN \<and> eat P LPAREN = Inr P1
      \<and> expr P1 = Inr (node, P2) \<and> token_type (current_token P2) \<noteq> RPAREN"
  then show e: "eat P2 RPAREN = Inl ParsingError" by (simp add: eat_mismatch)
  with h show "factor P = Inl ParsingError"
    by (simp add: factor.simps [of P] Let_def)
qed (code_simp+)

theorem unmatched_parenthesis_witness:
  "(token_type (current_token (parser_at ''(1 + 2'' 1 (mk_Token LPAREN (PyStr ''('')))) = LPAREN
    \<and> eat (parser_at ''(1 + 2'' 1 (mk_Token LPAREN (PyStr ''(''))) LPAREN
        = Inr (parser_at ''(1 + 2'' 2 (mk_Token INTEGER (PyInt 1)))
    \<and> expr (parser_at ''(1 + 2'' 2 (mk_Token INTEGER (PyInt 1)))
        = Inr (BinOp (Num (mk_Token INTEGER (PyInt 1))) (mk_Token PLUS (PyStr ''+''))
                     (Num (mk_Token INTEGER (PyInt 2))),
               parser_at ''(1 + 2'' 6 (mk_Token EOF PyNone))
    \<and> token_type (current_token (parser_at ''(1 + 2'' 6 (mk_Token EOF PyNone))) \<noteq> RPAREN)
   \<and> (eat (parser_at ''(1 + 2'' 6 (mk_Token EOF PyNone)) RPAREN = Inl ParsingError
    \<and> factor (parser_at ''(1 + 2'' 1 (mk_Token LPAREN (PyStr ''(''))) = Inl ParsingError)"
proof -
  have h: "token_type (current_token (parser_at ''(1 + 2'' 1 (mk_Token LPAREN (PyStr ''('')))) = LPAREN
    \<and> eat (parser_at ''(1 + 2'' 1 (mk_Token LPAREN (PyStr ''(''))) LPAREN
        = Inr (parser_at ''(1 + 2'' 2 (mk_Token INTEGER (PyInt 1)))
    \<and> expr (parser_at ''(1 + 2'' 2 (mk_Token INTEGER (PyInt 1)))
        = Inr (BinOp (Num (mk_Token INTEGER (PyInt 1))) (mk_Token PLUS (PyStr ''+''))
                     (Num (mk_Token INTEGER (PyInt 2))),
               parser_at ''(1 + 2'' 6 (mk_Token EOF PyNone))
    \<and> token_type (current_token (parser_at ''(1 + 2'' 6 (mk_Token EOF PyNone))) \<noteq> RPAREN"
    by (intro conjI; code_simp)
  have i: "(token_type (current_token (parser_at ''(1 + 2'' 1 (mk_Token LPAREN (PyStr ''('')))) = LPAREN
    \<and> eat (parser_at ''(1 + 2'' 1 (mk_Token LPAREN (PyStr ''(''))) LPAREN
        = Inr (parser_at ''(1 + 2'' 2 (mk_Token INTEGER (PyInt 1)))
    \<and> expr (parser_at ''(1 + 2'' 2 (mk_Token INTEGER (PyInt 1)))
        = Inr (BinOp (Num (mk_Token INTEGER (PyInt 1))) (mk_Token PLUS (PyStr ''+''))
                     (Num (mk_Token INTEGER (PyInt 2))),
               parser_at ''(1 + 2'' 6 (mk_Token EOF PyNone))
    \<and> token_type (current_token (parser_at ''(1 + 2'' 6 (mk_Token EOF PyNone))) \<noteq> RPAREN)
   \<longrightarrow> (eat (parser_at ''(1 + 2'' 6 (mk_Token EOF PyNone)) RPAREN = Inl ParsingError
    \<and> factor (parser_at ''(1 + 2'' 1 (mk_Token LPAREN (PyStr ''(''))) = Inl ParsingError)"
    by (rule unmatched_parenthesis [THEN conjunct1])
  from h i have c: "eat (parser_at ''(1 + 2'' 6 (mk_Token EOF PyNone)) RPAREN = Inl ParsingError
    \<and> factor (parser_at ''(1 + 2'' 1 (mk_Token LPAREN (PyStr ''(''))) = Inl ParsingError"
    by (rule rev_mp)
  show ?thesis by (rule conjI [OF h c])
qed

lemma pos_advance: "pos (advance L) = pos L + 1"
  by (simp add: advance_def Let_def)

lemma pos_skip_whitespace: "pos L \<le> pos (skip_whitespace L)"
proof (induction L rule: skip_whitespace.induct)
  case (1 L)
  show ?case
  proof (cases "current_char L")
    case None
    then show ?thesis by (simp add: skip_whitespace_id)
  next
    case (Some c)
    show ?thesis
    proof (cases "isspace c")
      case True
      with Some "1.IH" show ?thesis
        by (simp add: skip_whitespace.simps [of L] pos_advance)
    next
      case False
      with Some show ?thesis by (simp add: skip_whitespace_id)
    qed
  qed
qed

lemma pos_integer_loop: "pos L \<le> pos (snd (integer_loop r L))"
proof (induction r L rule: integer_loop.induct)
  case (1 r L)
  show ?case
  proof (cases "current_char L")
    case None
    then show ?thesis by (simp add: integer_loop.simps [of r L])
  next
    case (Some c)
    show ?thesis
    proof (cases "isdigit c")
      case True
      with Some "1.IH" show ?thesis
        by (simp add: integer_loop.simps [of r L] pos_advance)
    next
      case False
      with Some show ?thesis by (simp add: integer_loop.simps [of r L])
    qed
  qed
qed

lemma pos_integer:
  assumes "integer L = Inr (n, L')" "current_char L = Some c" "isdigit c"
  shows "pos L < pos L'"
proof -
  have "integer_loop [] L = integer_loop [c] (advance L)"
    using assms(2,3) by (simp add: integer_loop.simps [of "[]" L])
  moreover have "L' = snd (integer_loop [] L)"
    using assms(1) by (auto simp: integer_def split: prod.splits sum.splits)
  ultimately show ?thesis
    using pos_integer_loop [of "advance L" "[c]"] by (simp add: pos_advance)
qed

lemma get_next_token_pos:
  assumes "get_next_token L = Inr (tok, L')" "token_type tok \<noteq> EOF"
  shows "pos L < pos L'"
proof -
  let ?S = "skip_whitespace L"
  have g: "get_next_token ?S = Inr (tok, L')" using assms(1) by (simp add: get_next_token_skip)
  show ?thesis
  proof (cases "current_char ?S")
    case None
    with g assms(2) show ?thesis by (auto simp: get_next_token.simps [of ?S] mk_Token_def)
  next
    case (Some c)
    with skip_whitespace_stops [of L c] have ns: "\<not> isspace c" by simp
    have "pos ?S < pos L'"
    proof (cases "isdigit c")
      case True
      with ns Some g obtain n where "integer ?S = Inr (n, L')"
        by (auto simp: get_next_token.simps [of ?S] split: sum.splits)
      then show ?thesis using Some True by (rule pos_integer)
    next
      case False
      with ns Some g have "L' = advance ?S"
        by (auto simp: get_next_token.simps [of ?S] split: if_splits)
      then show ?thesis by (simp add: pos_advance)
    qed
    with pos_skip_whitespace [of L] show ?thesis by simp
  qed
qed

lemma parser_dom_total: "All factor_term_loop_Parser_term_expr_loop_expr_dom"
proof (relation "measure call_size")
  show "wf (measure call_size)" by simp
qed (auto simp: call_size_def split: if_splits dest!: parser_progress_partial eat_tokens_left)

lemma parser_progress:
  "factor P = Inr (n, P') \<or> Parser_term P = Inr (n, P') \<or> expr P = Inr (n, P')
     \<Longrightarrow> tokens_left P' < tokens_left P"
  using parser_progress_partial(1) [of P] parser_progress_partial(3) [of P]
    parser_progress_partial(5) [of P] parser_dom_total
  by blast

text \<open>
  C9. No call of the pipeline loops forever. Every argument of the three loops of the
  lexer and of the mutually recursive productions of the parser is in the domain on which
  the recursion ends; the evaluator recurses on the tree. The reasons are those the
  claim gives: \<^verbatim>\<open>advance\<close> moves the position by one, a call of \<^verbatim>\<open>get_next_token\<close> that
  returns a token other than \<open>EOF\<close> leaves the position further on, every successful
  \<^verbatim>\<open>eat\<close> and every production that returns leaves less for the parser to read. So for
  every text, empty or not, the interpretation is a value or one of the errors.
\<close>

theorem pipeline_terminates:
  "All skip_whitespace_dom \<and> All integer_loop_dom \<and> All get_next_token_dom
   \<and> All factor_term_loop_Parser_term_expr_loop_expr_dom
   \<and> pos (advance L) = pos L + 1
   \<and> (get_next_token L = Inr (tok, L') \<and> token_type tok \<noteq> EOF \<longrightarrow> pos L < pos L')
   \<and> (eat P tt = Inr P' \<and> tt \<noteq> EOF \<longrightarrow> tokens_left P' < tokens_left P)
   \<and> (factor P = Inr (n, P') \<or> Parser_term P = Inr (n, P') \<or> expr P = Inr (n, P')
        \<longrightarrow> tokens_left P' < tokens_left P)
   \<and> ((\<exists>e. interpret_text t = Inl e) \<or> (\<exists>v. interpret_text t = Inr v))"
proof (intro conjI impI)
  show "All skip_whitespace_dom"
    by (relation "measure chars_left") (auto simp: chars_left_advance)
  show "All integer_loop_dom"
    by (relation "measure (\<lambda>(result, L). chars_left L)") (auto simp: chars_left_advance)
  show "All get_next_token_dom"
    by (relation "measure token_rank") (auto simp: token_rank_skip)
  show "All factor_term_loop_Parser_term_expr_loop_expr_dom"
    by (rule parser_dom_total)
  show "pos (advance L) = pos L + 1" by (rule pos_advance)
  show "pos L < pos L'" if "get_next_token L = Inr (tok, L') \<and> token_type tok \<noteq> EOF"
    using that get_next_token_pos by blast
  show "tokens_left P' < tokens_left P" if "eat P tt = Inr P' \<and> tt \<noteq> EOF"
    using that eat_tokens_left by blast
  show "tokens_left P' < tokens_left P"
    if "factor P = Inr (n, P') \<or> Parser_term P = Inr (n, P') \<or> expr P = Inr (n, P')"
    using that by (rule parser_progress)
  show "(\<exists>e. interpret_text t = Inl e) \<or> (\<exists>v. interpret_text t = Inr v)"
    by (cases "interpret_text t") auto
qed

theorem pipeline_terminates_witness:
  "(get_next_token (lexer_at ''1 + 2'' 0) = Inr ((mk_Token INTEGER (PyInt 1)), (lexer_at ''1 + 2'' 1)) \<and> token_type (mk_Token INTEGER (PyInt 1)) \<noteq> EOF)
   \<and> pos (lexer_at ''1 + 2'' 0) < pos (lexer_at ''1 + 2'' 1)
   \<and> (eat (parser_at ''1 + 2'' 1 (mk_Token INTEGER (PyInt 1))) INTEGER = Inr (parser_at ''1 + 2'' 3 (mk_Token PLUS (PyStr ''+''))) \<and> INTEGER \<noteq> EOF \<and> factor (parser_at ''1 + 2'' 1 (mk_Token INTEGER (PyInt 1))) = Inr ((Num (mk_Token INTEGER (PyInt 1))), (parser_at ''1 + 2'' 3 (mk_Token PLUS (PyStr ''+'')))))
   \<and> tokens_left (parser_at ''1 + 2'' 3 (mk_Token PLUS (PyStr ''+''))) < tokens_left (parser_at ''1 + 2'' 1 (mk_Token INTEGER (PyInt 1)))
   \<and> interpret_text ''1 + 2'' = Inr (PyInt 3)"
proof -
  have h1: "get_next_token (lexer_at ''1 + 2'' 0) = Inr ((mk_Token INTEGER (PyInt 1)), (lexer_at ''1 + 2'' 1)) \<and> token_type (mk_Token INTEGER (PyInt 1)) \<noteq> EOF"
    by (intro conjI; code_simp)
  have h2: "eat (parser_at ''1 + 2'' 1 (mk_Token INTEGER (PyInt 1))) INTEGER = Inr (parser_at ''1 + 2'' 3 (mk_Token PLUS (PyStr ''+''))) \<and> INTEGER \<noteq> EOF"
    by (intro conjI; code_simp)
  have h3: "factor (parser_at ''1 + 2'' 1 (mk_Token INTEGER (PyInt 1))) = Inr ((Num (mk_Token INTEGER (PyInt 1))), (parser_at ''1 + 2'' 3 (mk_Token PLUS (PyStr ''+''))))"
    by code_simp
  have v: "interpret_text ''1 + 2'' = Inr (PyInt 3)"
    by code_simp
  note t = pipeline_terminates [of "lexer_at ''1 + 2'' 0" "mk_Token INTEGER (PyInt 1)" "lexer_at ''1 + 2'' 1" "parser_at ''1 + 2'' 1 (mk_Token INTEGER (PyInt 1))" INTEGER "parser_at ''1 + 2'' 3 (mk_Token PLUS (PyStr ''+''))" "Num (mk_Token INTEGER (PyInt 1))" "''1 + 2''"]
  from t h1 have c1: "pos (lexer_at ''1 + 2'' 0) < pos (lexer_at ''1 + 2'' 1)" by blast
  from t h2 h3 have c2: "tokens_left (parser_at ''1 + 2'' 3 (mk_Token PLUS (PyStr ''+''))) < tokens_left (parser_at ''1 + 2'' 1 (mk_Token INTEGER (PyInt 1)))" by blast
  from h1 h2 h3 c1 c2 v show ?thesis by blast
qed

end
